theory Spec2Isabelle
  imports Main "HOL-Library.Sublist"
begin

section \<open>Text\<close>

text \<open>
  A Python \<open>str\<close> is a sequence of code points. The schedule site is French text, and
  the model keeps to the code points U+0000 .. U+00FF: a \<^typ>\<open>char\<close> is read as the
  code point of that number (so \<open>CHR 0xE9\<close> is the letter e with acute accent), and a
  \<^typ>\<open>string\<close> is a \<open>str\<close> made of such code points. On this range the character
  classes of \<open>re\<close> (\<open>\d\<close>, \<open>\s\<close>, \<open>\w\<close> on \<open>str\<close> patterns), \<open>str.strip\<close>,
  \<open>str.split\<close> and \<open>str.lower\<close> are the ones written out below; \<open>str.lower\<close> maps
  the range into itself, one code point to one code point.
\<close>

definition is_digit :: "char \<Rightarrow> bool" where
  "is_digit c = (let n = (of_char c :: nat) in 48 \<le> n \<and> n \<le> 57)"

definition is_space :: "char \<Rightarrow> bool" where
  "is_space c = (let n = (of_char c :: nat) in
     (9 \<le> n \<and> n \<le> 13) \<or> (28 \<le> n \<and> n \<le> 32) \<or> n = 133 \<or> n = 160)"

definition is_word :: "char \<Rightarrow> bool" where
  "is_word c = (let n = (of_char c :: nat) in
     (48 \<le> n \<and> n \<le> 57) \<or> (65 \<le> n \<and> n \<le> 90) \<or> n = 95 \<or> (97 \<le> n \<and> n \<le> 122)
     \<or> n = 170 \<or> n = 178 \<or> n = 179 \<or> n = 181 \<or> n = 185 \<or> n = 186
     \<or> (188 \<le> n \<and> n \<le> 190) \<or> (192 \<le> n \<and> n \<le> 214)
     \<or> (216 \<le> n \<and> n \<le> 246) \<or> (248 \<le> n \<and> n \<le> 255))"

definition lower_char :: "char \<Rightarrow> char" where
  "lower_char c = (let n = (of_char c :: nat) in
     if (65 \<le> n \<and> n \<le> 90) \<or> (192 \<le> n \<and> n \<le> 214) \<or> (216 \<le> n \<and> n \<le> 222)
     then char_of (n + 32) else c)"

definition lower :: "string \<Rightarrow> string" where
  "lower s = map lower_char s"

definition strip :: "string \<Rightarrow> string" where
  "strip s = rev (dropWhile is_space (rev (dropWhile is_space s)))"

text \<open>\<open>needle in haystack\<close> on \<open>str\<close>: a contiguous occurrence.\<close>

fun py_in :: "string \<Rightarrow> string \<Rightarrow> bool" where
  "py_in needle [] = (needle = [])"
| "py_in needle (c # cs) = (prefix needle (c # cs) \<or> py_in needle cs)"

text \<open>\<open>s.split()\<close>: the maximal runs of non-whitespace.\<close>

function split_ws :: "string \<Rightarrow> string list" where
  "split_ws s =
     (case dropWhile is_space s of
        [] \<Rightarrow> []
      | c # cs \<Rightarrow> takeWhile (\<lambda>x. \<not> is_space x) (c # cs)
                 # split_ws (dropWhile (\<lambda>x. \<not> is_space x) (c # cs)))"
  by pat_completeness auto
termination
proof (relation "measure length")
  show "wf (measure length)" by simp
next
  fix s :: string and c cs
  assume a: "dropWhile is_space s = c # cs"
  have "length (dropWhile (\<lambda>x. \<not> is_space x) (c # cs)) \<le> length (c # cs)"
    by (rule length_dropWhile_le)
  moreover have "\<not> is_space c"
    using a by (metis hd_dropWhile list.sel(1) list.simps(3))
  ultimately have "length (dropWhile (\<lambda>x. \<not> is_space x) (c # cs)) < length (c # cs)"
    using length_dropWhile_le [of "\<lambda>x. \<not> is_space x" cs] by simp
  moreover have "length (c # cs) \<le> length s"
    using a length_dropWhile_le [of is_space s] by simp
  ultimately show "(dropWhile (\<lambda>x. \<not> is_space x) (c # cs), s) \<in> measure length"
    by simp
qed

declare split_ws.simps [simp del]

section \<open>Exceptions and integers\<close>

datatype py_error = ValueError | OverflowError | IndexError | TimeoutError | CalledProcessError

text \<open>
  A computation that may raise is a value of \<open>py_error + 'a\<close>, \<open>Inl e\<close> for the raised
  exception. \<open>then_do r f\<close> runs \<open>f\<close> on the result of \<open>r\<close>, unless \<open>r\<close> raised.
\<close>

definition then_do :: "py_error + 'a \<Rightarrow> ('a \<Rightarrow> py_error + 'b) \<Rightarrow> py_error + 'b" where
  "then_do r f = (case r of Inl e \<Rightarrow> Inl e | Inr x \<Rightarrow> f x)"

text \<open>
  \<open>xs[i]\<close>: an index below zero counts from the end of the list, and an index outside
  the list raises \<open>IndexError\<close>.
\<close>

definition py_index :: "'a list \<Rightarrow> int \<Rightarrow> py_error + 'a" where
  "py_index xs i =
     (if 0 \<le> i \<and> i < int (length xs) then Inr (xs ! nat i)
      else if i < 0 \<and> - int (length xs) \<le> i then Inr (xs ! nat (int (length xs) + i))
      else Inl IndexError)"

definition digit_val :: "char \<Rightarrow> int" where
  "digit_val c = int (of_char c) - 48"

definition digits_val :: "string \<Rightarrow> int" where
  "digits_val ds = foldl (\<lambda>acc c. 10 * acc + digit_val c) 0 ds"

text \<open>
  \<open>int(s)\<close>. The source applies it to digit runs only (a \<open>\d\<close> group of a match, a
  part of a matched \<open>YYYY-MM-DD\<close>). Python's integers are unbounded; CPython refuses
  to convert a text of more than 4300 digits (the default of
  \<open>sys.int_max_str_digits\<close>, leading zeros counted) and raises \<open>ValueError\<close>, as it
  does for a text without digits. Signs, underscores and surrounding blanks, which
  \<open>int\<close> also reads, never reach it here and are not modelled.
\<close>

definition int_max_str_digits :: nat where
  "int_max_str_digits = 4300"

definition py_int :: "string \<Rightarrow> py_error + int" where
  "py_int ds =
     (if ds = [] \<or> \<not> list_all is_digit ds then Inl ValueError
      else if length ds > int_max_str_digits then Inl ValueError
      else Inr (digits_val ds))"

section \<open>Timestamps\<close>

text \<open>
  A naive \<open>datetime\<close>. \<open>datetime(year, month, day, hour, minute)\<close> leaves second and
  microsecond at 0; \<open>datetime.now()\<close> fills them.
\<close>

record datetime =
  year :: int
  month :: int
  day :: int
  hour :: int
  minute :: int
  second :: int
  microsecond :: int

definition is_leap :: "int \<Rightarrow> bool" where
  "is_leap y = (y mod 4 = 0 \<and> (y mod 100 \<noteq> 0 \<or> y mod 400 = 0))"

definition days_in_month :: "int \<Rightarrow> int \<Rightarrow> int" where
  "days_in_month y m =
     (if m = 2 then (if is_leap y then 29 else 28)
      else if m = 4 \<or> m = 6 \<or> m = 9 \<or> m = 11 then 30 else 31)"

definition c_int_max :: int where
  "c_int_max = 2147483647"

definition fits_c_int :: "int \<Rightarrow> bool" where
  "fits_c_int n = (- c_int_max - 1 \<le> n \<and> n \<le> c_int_max)"

text \<open>
  The constructor \<open>datetime(year, month, day, hour, minute)\<close> of CPython: each argument
  is converted to a C \<open>int\<close> first (\<open>OverflowError\<close> when it does not fit), then the
  ranges are checked (\<open>ValueError\<close>).
\<close>

definition datetime_new :: "int \<Rightarrow> int \<Rightarrow> int \<Rightarrow> int \<Rightarrow> int \<Rightarrow> py_error + datetime" where
  "datetime_new y m d hh mm =
     (if \<not> (fits_c_int y \<and> fits_c_int m \<and> fits_c_int d \<and> fits_c_int hh \<and> fits_c_int mm)
      then Inl OverflowError
      else if y < 1 \<or> 9999 < y then Inl ValueError
      else if m < 1 \<or> 12 < m then Inl ValueError
      else if d < 1 \<or> days_in_month y m < d then Inl ValueError
      else if hh < 0 \<or> 23 < hh then Inl ValueError
      else if mm < 0 \<or> 59 < mm then Inl ValueError
      else Inr \<lparr>year = y, month = m, day = d, hour = hh, minute = mm,
                second = 0, microsecond = 0\<rparr>)"

text \<open>Comparison of naive timestamps: field by field, most significant first.\<close>

fun lex_less :: "int list \<Rightarrow> int list \<Rightarrow> bool" where
  "lex_less (a # as) (b # bs) = (a < b \<or> (a = b \<and> lex_less as bs))"
| "lex_less _ _ = False"

definition dt_fields :: "datetime \<Rightarrow> int list" where
  "dt_fields t = [year t, month t, day t, hour t, minute t, second t, microsecond t]"

definition dt_less :: "datetime \<Rightarrow> datetime \<Rightarrow> bool" where
  "dt_less a b = lex_less (dt_fields a) (dt_fields b)"

text \<open>
  \<open>t + timedelta(minutes=n)\<close> for \<open>n \<ge> 0\<close>: the minutes carry into the hours, the hours
  into the days, the days run through the calendar; a result after year 9999 raises
  \<open>OverflowError\<close>.
\<close>

definition next_day :: "int \<times> int \<times> int \<Rightarrow> int \<times> int \<times> int" where
  "next_day ymd =
     (case ymd of (y, m, d) \<Rightarrow>
        if d < days_in_month y m then (y, m, d + 1)
        else if m < 12 then (y, m + 1, 1)
        else (y + 1, 1, 1))"

definition add_minutes :: "datetime \<Rightarrow> nat \<Rightarrow> py_error + datetime" where
  "add_minutes t n =
     (let total = minute t + int n;
          hours = hour t + total div 60;
          ymd = (next_day ^^ nat (hours div 24)) (year t, month t, day t)
      in case ymd of (y, m, d) \<Rightarrow>
           if 9999 < y then Inl OverflowError
           else Inr (t\<lparr>year := y, month := m, day := d,
                       hour := hours mod 24, minute := total mod 60\<rparr>))"

section \<open>Regular expressions of the date code\<close>

text \<open>
  Each pattern of the source is written as the function that \<open>re\<close> computes for it.
  A group \<open>\d+\<close>, \<open>\s+\<close> or \<open>\w+\<close> is greedy, and in these patterns giving back a
  character never helps (the character given back is of the group's own class, and
  the next item of the pattern is of another), so a match at a position takes the
  maximal runs. \<open>re.search\<close> tries the positions from the left.
\<close>

text \<open>\<open>(\d+)\s+(\w+)\<close> at the start of the text: the groups 1 and 2.\<close>

definition match_day_month :: "string \<Rightarrow> (string \<times> string) option" where
  "match_day_month s =
     (let ds = takeWhile is_digit s;
          r1 = dropWhile is_digit s;
          sp = takeWhile is_space r1;
          r2 = dropWhile is_space r1;
          w = takeWhile is_word r2
      in if ds \<noteq> [] \<and> sp \<noteq> [] \<and> w \<noteq> [] then Some (ds, w) else None)"

fun search_day_month :: "string \<Rightarrow> (string \<times> string) option" where
  "search_day_month [] = None"
| "search_day_month (c # cs) =
     (case match_day_month (c # cs) of
        Some r \<Rightarrow> Some r
      | None \<Rightarrow> search_day_month cs)"

text \<open>\<open>(\d+):(\d+)\<close> at the start of the text.\<close>

definition match_time :: "string \<Rightarrow> (string \<times> string) option" where
  "match_time s =
     (let hs = takeWhile is_digit s;
          r1 = dropWhile is_digit s
      in case r1 of
           [] \<Rightarrow> None
         | c # r2 \<Rightarrow>
             (let ms = takeWhile is_digit r2
              in if hs \<noteq> [] \<and> c = CHR '':'' \<and> ms \<noteq> [] then Some (hs, ms) else None))"

fun search_time :: "string \<Rightarrow> (string \<times> string) option" where
  "search_time [] = None"
| "search_time (c # cs) =
     (case match_time (c # cs) of
        Some r \<Rightarrow> Some r
      | None \<Rightarrow> search_time cs)"

section \<open>Date resolution\<close>

text \<open>The table \<open>FRENCH_MONTHS\<close>.\<close>

definition FRENCH_MONTHS :: "(string \<times> int) list" where
  "FRENCH_MONTHS =
     [(''janvier'', 1), (''f'' @ [CHR 0xE9] @ ''vrier'', 2), (''mars'', 3), (''avril'', 4),
      (''mai'', 5), (''juin'', 6), (''juillet'', 7), (''ao'' @ [CHR 0xFB] @ ''t'', 8),
      (''septembre'', 9), (''octobre'', 10), (''novembre'', 11),
      (''d'' @ [CHR 0xE9] @ ''cembre'', 12)]"

text \<open>
  \<open>parse_french_date(date_str, time_str, year=None)\<close>. The reading of
  \<open>datetime.now()\<close> is the argument \<open>now\<close>. The result is \<open>Inl e\<close> when the exception
  \<open>e\<close> leaves the function, \<open>Inr None\<close> when it returns \<open>None\<close>, and \<open>Inr (Some t)\<close>
  when it returns the timestamp \<open>t\<close>. The two \<open>int\<close> conversions of the date and of the
  time stand outside the \<open>try\<close>, which catches \<open>ValueError\<close> only.
\<close>

definition infer_year :: "datetime \<Rightarrow> int \<Rightarrow> int \<Rightarrow> int" where
  "infer_year now m d =
     (if m < month now \<or> (m = month now \<and> d < day now) then year now + 1 else year now)"

definition parse_french_date ::
  "datetime \<Rightarrow> string \<Rightarrow> string \<Rightarrow> int option \<Rightarrow> py_error + datetime option" where
  "parse_french_date now date_str time_str year_arg =
     (case search_day_month date_str of
        None \<Rightarrow> Inr None
      | Some (day_text, month_text) \<Rightarrow>
          (case py_int day_text of
             Inl e \<Rightarrow> Inl e
           | Inr d \<Rightarrow>
               (case map_of FRENCH_MONTHS (lower month_text) of
                  None \<Rightarrow> Inr None
                | Some m \<Rightarrow>
                    (let y = (case year_arg of None \<Rightarrow> infer_year now m d | Some y' \<Rightarrow> y')
                     in case search_time time_str of
                          None \<Rightarrow> Inr None
                        | Some (hour_text, minute_text) \<Rightarrow>
                            (case py_int hour_text of
                               Inl e \<Rightarrow> Inl e
                             | Inr hh \<Rightarrow>
                                 (case py_int minute_text of
                                    Inl e \<Rightarrow> Inl e
                                  | Inr mm \<Rightarrow>
                                      (case datetime_new y m d hh mm of
                                         Inl ValueError \<Rightarrow> Inr None
                                       | Inl e \<Rightarrow> Inl e
                                       | Inr t \<Rightarrow> Inr (Some t))))))))"

section \<open>More patterns\<close>

text \<open>
  A pattern made of a fixed number of one-character items, at the start of the text:
  the matched text and the rest.
\<close>

fun match_classes :: "(char \<Rightarrow> bool) list \<Rightarrow> string \<Rightarrow> (string \<times> string) option" where
  "match_classes [] s = Some ([], s)"
| "match_classes (p # ps) [] = None"
| "match_classes (p # ps) (c # cs) =
     (if p c
      then (case match_classes ps cs of
              None \<Rightarrow> None
            | Some (m, rest) \<Rightarrow> Some (c # m, rest))
      else None)"

definition is_char :: "char \<Rightarrow> char \<Rightarrow> bool" where
  "is_char a c = (c = a)"

text \<open>\<open>\d{4}-\d{2}-\d{2}\<close>, searched from the left: the matched text.\<close>

definition iso_pattern :: "(char \<Rightarrow> bool) list" where
  "iso_pattern =
     [is_digit, is_digit, is_digit, is_digit, is_char CHR ''-'',
      is_digit, is_digit, is_char CHR ''-'', is_digit, is_digit]"

fun search_iso :: "string \<Rightarrow> string option" where
  "search_iso [] = None"
| "search_iso (c # cs) =
     (case match_classes iso_pattern (c # cs) of
        Some (m, rest) \<Rightarrow> Some m
      | None \<Rightarrow> search_iso cs)"

text \<open>
  \<open>(\d{1,2}):(\d{2})\<close> at the start of the text (\<open>re.match\<close>): two hour digits are
  tried first, then one. The groups and the rest of the text.
\<close>

definition match_hm :: "string \<Rightarrow> ((string \<times> string) \<times> string) option" where
  "match_hm s =
     (case match_classes [is_digit, is_digit, is_char CHR '':'', is_digit, is_digit] s of
        Some (m, rest) \<Rightarrow> Some ((take 2 m, drop 3 m), rest)
      | None \<Rightarrow>
          (case match_classes [is_digit, is_char CHR '':'', is_digit, is_digit] s of
             Some (m, rest) \<Rightarrow> Some ((take 1 m, drop 2 m), rest)
           | None \<Rightarrow> None))"

text \<open>
  \<open>^\d{1,2}:\d{2}$\<close> with \<open>re.match\<close>: \<open>$\<close> holds at the end of the text and before a
  final line feed.
\<close>

definition at_dollar :: "string \<Rightarrow> bool" where
  "at_dollar rest = (rest = [] \<or> rest = [CHR 0x0A])"

definition match_time_cell :: "string \<Rightarrow> bool" where
  "match_time_cell s =
     ((case match_classes [is_digit, is_digit, is_char CHR '':'', is_digit, is_digit] s of
         Some (m, rest) \<Rightarrow> at_dollar rest
       | None \<Rightarrow> False)
      \<or> (case match_classes [is_digit, is_char CHR '':'', is_digit, is_digit] s of
            Some (m, rest) \<Rightarrow> at_dollar rest
          | None \<Rightarrow> False))"

text \<open>\<open>s.split(sep)\<close> for a separator of one character.\<close>

fun split_on :: "char \<Rightarrow> string \<Rightarrow> string list" where
  "split_on sep [] = [[]]"
| "split_on sep (c # cs) =
     (if c = sep then [] # split_on sep cs
      else (case split_on sep cs of
              [] \<Rightarrow> [[c]]
            | p # ps \<Rightarrow> (c # p) # ps))"

text \<open>
  \<open>re.sub(r'\s*\([^)]*\)', '', s)\<close>. A match at a position is the blanks there, an
  opening parenthesis, and everything up to the first closing parenthesis (which must
  exist); it is dropped, and the scan goes on behind it. Where nothing matches, the
  character is kept.
\<close>

definition match_paren :: "string \<Rightarrow> string option" where
  "match_paren s =
     (case dropWhile is_space s of
        [] \<Rightarrow> None
      | c # r \<Rightarrow>
          if c = CHR ''(''
          then (case dropWhile (\<lambda>x. x \<noteq> CHR '')'') r of
                  [] \<Rightarrow> None
                | _ # rest \<Rightarrow> Some rest)
          else None)"

function sub_parens :: "string \<Rightarrow> string" where
  "sub_parens [] = []"
| "sub_parens (c # cs) =
     (case match_paren (c # cs) of
        Some rest \<Rightarrow> sub_parens rest
      | None \<Rightarrow> c # sub_parens cs)"
  by pat_completeness auto
termination
proof (relation "measure length")
  show "wf (measure length)" by simp
next
  fix c :: char and cs rest
  assume a: "match_paren (c # cs) = Some rest"
  then obtain r where r: "dropWhile is_space (c # cs) = CHR ''('' # r"
    by (auto simp: match_paren_def split: list.splits if_splits)
  with a obtain x where x: "dropWhile (\<lambda>x. x \<noteq> CHR '')'') r = x # rest"
    by (auto simp: match_paren_def split: list.splits)
  have "length (x # rest) \<le> length r"
    using length_dropWhile_le [of "\<lambda>x. x \<noteq> CHR '')''" r] x by simp
  moreover have "length (CHR ''('' # r) \<le> length (c # cs)"
    using length_dropWhile_le [of is_space "c # cs"] r by simp
  ultimately show "(rest, c # cs) \<in> measure length" by simp
next
  fix c :: char and cs
  show "(cs, c # cs) \<in> measure length" by simp
qed

section \<open>The parsed page\<close>

text \<open>
  The tree that BeautifulSoup builds: a text node, or a tag with its name, the list
  of its classes (empty when it has no \<open>class\<close> attribute), its \<open>href\<close> attribute
  when it has one, and its children. These are the attributes the source asks for.
  Comments and the contents of \<open>script\<close> and \<open>style\<close> elements, which \<open>get_text\<close>
  passes over, are not part of the tree.
\<close>

datatype node =
  Text string
| Tag string "string list" "string option" "node list"

fun descendants :: "node \<Rightarrow> node list" where
  "descendants (Text s) = []"
| "descendants (Tag n cs h ch) = concat (map (\<lambda>c. c # descendants c) ch)"

fun tag_name :: "node \<Rightarrow> string option" where
  "tag_name (Text s) = None"
| "tag_name (Tag n cs h ch) = Some n"

fun classes :: "node \<Rightarrow> string list" where
  "classes (Text s) = []"
| "classes (Tag n cs h ch) = cs"

fun href :: "node \<Rightarrow> string option" where
  "href (Text s) = None"
| "href (Tag n cs h ch) = h"

fun node_text :: "node \<Rightarrow> string option" where
  "node_text (Text s) = Some s"
| "node_text (Tag n cs h ch) = None"

text \<open>\<open>tag.find_all(...)\<close> and \<open>tag.find(...)\<close>: the descendants in document order.\<close>

definition bs_find_all :: "(node \<Rightarrow> bool) \<Rightarrow> node \<Rightarrow> node list" where
  "bs_find_all p n = filter p (descendants n)"

definition bs_find :: "(node \<Rightarrow> bool) \<Rightarrow> node \<Rightarrow> node option" where
  "bs_find p n = (case bs_find_all p n of [] \<Rightarrow> None | x # _ \<Rightarrow> Some x)"

definition named :: "string \<Rightarrow> node \<Rightarrow> bool" where
  "named nm n = (tag_name n = Some nm)"

definition with_class :: "string \<Rightarrow> string \<Rightarrow> node \<Rightarrow> bool" where
  "with_class nm cl n = (tag_name n = Some nm \<and> cl \<in> set (classes n))"

definition team_link :: "node \<Rightarrow> bool" where
  "team_link n =
     (tag_name n = Some ''a'' \<and> (case href n of None \<Rightarrow> False | Some h \<Rightarrow> py_in ''/equipes/'' h))"

text \<open>
  \<open>tag.get_text(strip=True)\<close>: the text nodes below the tag, each stripped, the empty
  ones left out, joined without a separator.
\<close>

definition get_text :: "node \<Rightarrow> string" where
  "get_text n =
     concat (filter (\<lambda>s. s \<noteq> []) (map strip (List.map_filter node_text (descendants n))))"

section \<open>Games\<close>

text \<open>
  The dictionary that \<open>fetch_games\<close> appends. Its keys \<open>end\<close> and \<open>notes\<close> are the
  fields \<open>end_dt\<close> and \<open>notes_str\<close> here.
\<close>

record game =
  title :: string
  start :: datetime
  end_dt :: datetime
  location :: string
  notes_str :: string
  calendar :: string
  our_team :: string
  opponent :: string
  is_home :: bool

text \<open>
  The state of the row loop of \<open>fetch_games\<close>: \<open>self.games\<close> and the text of the last
  date header.
\<close>

record scan_state =
  games :: "game list"
  current_date_str :: "string option"

subsection \<open>Team names\<close>

text \<open>The loop with the set \<open>seen\<close>: the first occurrence of each name is kept.\<close>

fun dedupe :: "string list \<Rightarrow> string list \<Rightarrow> string list" where
  "dedupe seen [] = []"
| "dedupe seen (t # ts) =
     (if t \<in> set seen then dedupe seen ts else t # dedupe (t # seen) ts)"

definition extract_team_names :: "node \<Rightarrow> string list" where
  "extract_team_names row =
     dedupe [] (filter (\<lambda>t. t \<noteq> []) (map get_text (bs_find_all team_link row)))"

text \<open>
  The loop over \<open>enumerate(team_names)\<close>: the first name that is in the configured list
  is \<open>our_team\<close>, \<open>team_names[1 - i]\<close> is \<open>opponent\<close>, and \<open>is_home\<close> is \<open>i == 1\<close>.
\<close>

fun match_team ::
  "string list \<Rightarrow> string list \<Rightarrow> nat \<Rightarrow> string list
     \<Rightarrow> py_error + (string \<times> string \<times> bool) option" where
  "match_team cfg names i [] = Inr None"
| "match_team cfg names i (t # ts) =
     (if t \<in> set cfg
      then (case py_index names (1 - int i) of
              Inl e \<Rightarrow> Inl e
            | Inr opp \<Rightarrow> Inr (Some (t, opp, i = 1)))
      else match_team cfg names (Suc i) ts)"

subsection \<open>Category\<close>

definition extract_category :: "node \<Rightarrow> py_error + string" where
  "extract_category row =
     (case bs_find (with_class ''div'' ''cat_name'') row of
        None \<Rightarrow> Inr ''Unknown''
      | Some cat_name_div \<Rightarrow>
          (case bs_find (named ''span'') cat_name_div of
             None \<Rightarrow> Inr ''Hockey''
           | Some cat_span \<Rightarrow>
               (let category_text = get_text cat_span
                in if category_text \<noteq> [] then py_index (split_ws category_text) 0
                   else Inr ''Hockey'')))"

subsection \<open>Date, time and venue of a row\<close>

text \<open>
  The body of the \<open>try\<close> that builds the timestamp from a matched \<open>YYYY-MM-DD\<close> and the
  time text; \<open>ValueError\<close> and \<open>IndexError\<close> are caught and leave no timestamp.
\<close>

definition build_datetime_try :: "string \<Rightarrow> string \<Rightarrow> py_error + datetime option" where
  "build_datetime_try date_str time_str =
     (let date_parts = split_on CHR ''-'' date_str in
      then_do (py_index date_parts 0) (\<lambda>p0.
      then_do (py_int p0) (\<lambda>y.
      then_do (py_index date_parts 1) (\<lambda>p1.
      then_do (py_int p1) (\<lambda>m.
      then_do (py_index date_parts 2) (\<lambda>p2.
      then_do (py_int p2) (\<lambda>d.
        (case match_hm time_str of
           None \<Rightarrow> Inr None
         | Some ((hour_text, minute_text), rest) \<Rightarrow>
             then_do (py_int hour_text) (\<lambda>hh.
             then_do (py_int minute_text) (\<lambda>mm.
             then_do (datetime_new y m d hh mm) (\<lambda>t. Inr (Some t))))))))))))"

definition build_datetime :: "string \<Rightarrow> string \<Rightarrow> py_error + datetime option" where
  "build_datetime date_str time_str =
     (case build_datetime_try date_str time_str of
        Inl ValueError \<Rightarrow> Inr None
      | Inl IndexError \<Rightarrow> Inr None
      | r \<Rightarrow> r)"

text \<open>
  The inner loop over \<open>td_elements\<close>: the first cell whose first \<open>game_date\<close> element
  holds a \<open>YYYY-MM-DD\<close> gives the date, and the loop ends there.
\<close>

fun pair_date :: "node list \<Rightarrow> string \<Rightarrow> py_error + datetime option" where
  "pair_date [] time_str = Inr None"
| "pair_date (prev_td # tds) time_str =
     (case bs_find (with_class ''div'' ''game_date'') prev_td of
        None \<Rightarrow> pair_date tds time_str
      | Some prev_date_div \<Rightarrow>
          (case search_iso (get_text prev_date_div) of
             None \<Rightarrow> pair_date tds time_str
           | Some date_str \<Rightarrow> build_datetime date_str time_str))"

text \<open>
  The outer loop over \<open>td_elements\<close>: a cell whose first \<open>game_date\<close> element is a
  bare time ends the loop, with the timestamp paired from all cells and the venue of
  that cell. The second argument is the cells still to visit. The result is
  \<open>game_datetime\<close> and \<open>venue\<close>.
\<close>

fun scan_tds :: "node list \<Rightarrow> node list \<Rightarrow> py_error + (datetime option \<times> string)" where
  "scan_tds td_elements [] = Inr (None, ''TBD'')"
| "scan_tds td_elements (td # tds) =
     (case bs_find (with_class ''div'' ''game_date'') td of
        None \<Rightarrow> scan_tds td_elements tds
      | Some date_div \<Rightarrow>
          (let date_text = get_text date_div
           in if search_iso date_text \<noteq> None then scan_tds td_elements tds
              else if match_time_cell date_text
              then (case pair_date td_elements date_text of
                      Inl e \<Rightarrow> Inl e
                    | Inr game_datetime \<Rightarrow>
                        Inr (game_datetime,
                             (case bs_find (with_class ''div'' ''game_venue'') td of
                                None \<Rightarrow> ''TBD''
                              | Some venue_div \<Rightarrow> get_text venue_div)))
              else scan_tds td_elements tds))"

text \<open>
  The fallback on the date header: taken when no timestamp was found and a header
  text is there (and not empty).
\<close>

definition relative_date ::
  "datetime \<Rightarrow> string option \<Rightarrow> node \<Rightarrow> datetime option \<times> string
     \<Rightarrow> py_error + (datetime option \<times> string)" where
  "relative_date now header row found =
     (case found of (game_datetime, venue) \<Rightarrow>
        (case header of
           None \<Rightarrow> Inr (game_datetime, venue)
         | Some date_str \<Rightarrow>
             if game_datetime = None \<and> date_str \<noteq> []
             then (case (case bs_find (with_class ''div'' ''game_date'') row of
                           None \<Rightarrow> Inr None
                         | Some game_date_div \<Rightarrow>
                             parse_french_date now date_str (get_text game_date_div) None) of
                     Inl e \<Rightarrow> Inl e
                   | Inr parsed \<Rightarrow>
                       Inr (parsed,
                            (case bs_find (with_class ''div'' ''game_venue'') row of
                               None \<Rightarrow> venue
                             | Some venue_div \<Rightarrow> get_text venue_div)))
             else Inr (game_datetime, venue)))"

subsection \<open>Venue routing and notes\<close>

definition route_venue :: "string \<Rightarrow> string \<Rightarrow> (string \<times> string) option" where
  "route_venue venue category =
     (if py_in ''(St-Aug'' venue \<or> py_in ''(st-aug'' (lower venue)
      then Some (''Dek St-Aug'', ''game '' @ category)
      else if py_in ''(Chauveau'' venue \<or> py_in ''(chauveau'' (lower venue)
      then Some (''Dek Chauveau'', ''game '' @ category)
      else if py_in (''l'' @ [CHR 0xE9] @ ''vis'') (lower venue) \<or> py_in ''levis'' (lower venue)
      then Some (''Autre'', ''game '' @ category @ '' Levis'')
      else None)"

definition venue_name :: "string \<Rightarrow> string" where
  "venue_name venue = strip (sub_parens venue)"

definition make_notes :: "bool \<Rightarrow> string \<Rightarrow> string \<Rightarrow> string \<Rightarrow> string" where
  "make_notes home our opp venue =
     (if home then opp @ '' @ '' @ our @ [CHR 0x0A] @ venue_name venue
      else our @ '' @ '' @ opp @ [CHR 0x0A] @ venue_name venue)"

subsection \<open>One row\<close>

text \<open>
  The body of \<open>for row in all_rows\<close>. \<open>team_names\<close> is the configured list
  \<open>self.team_names\<close>. A row reads the clock at most twice: inside
  \<open>parse_french_date\<close> (the first reading) and at the filter on past games (the
  second). \<open>Inr\<close> is the state after the row (unchanged when the row is skipped),
  \<open>Inl e\<close> the exception that leaves the loop. \<open>process_game_row\<close> is the part behind
  the check on the team links, \<open>finish_row\<close> the part from the filter on past games
  to the \<open>append\<close>.
\<close>

definition finish_row ::
  "scan_state \<Rightarrow> string \<times> string \<times> bool \<Rightarrow> string \<Rightarrow> datetime \<Rightarrow> string \<Rightarrow> datetime
     \<Rightarrow> py_error + scan_state" where
  "finish_row st teams category game_datetime venue now =
     (case teams of (our, opp, home) \<Rightarrow>
        if dt_less game_datetime now then Inr st
        else (case route_venue venue category of
                None \<Rightarrow> Inr st
              | Some (cal, ttl) \<Rightarrow>
                  then_do (add_minutes game_datetime 50) (\<lambda>game_end.
                    Inr (st\<lparr>games := games st @
                           [\<lparr>title = ttl, start = game_datetime, end_dt = game_end,
                             location = [], notes_str = make_notes home our opp venue,
                             calendar = cal, our_team = our, opponent = opp,
                             is_home = home\<rparr>]\<rparr>))))"

definition process_game_row ::
  "string list \<Rightarrow> datetime \<times> datetime \<Rightarrow> scan_state \<Rightarrow> node \<Rightarrow> py_error + scan_state" where
  "process_game_row team_names nows st row =
     (let names = extract_team_names row in
      if length names < 2 then Inr st
      else
      then_do (match_team team_names names 0 names) (\<lambda>matched.
        (case matched of
           None \<Rightarrow> Inr st
         | Some teams \<Rightarrow>
             if fst teams = [] then Inr st
             else
             then_do (extract_category row) (\<lambda>category.
             then_do (let td_elements = bs_find_all (named ''td'') row
                      in scan_tds td_elements td_elements) (\<lambda>found.
             then_do (relative_date (fst nows) (current_date_str st) row found) (\<lambda>resolved.
               (case fst resolved of
                  None \<Rightarrow> Inr st
                | Some game_datetime \<Rightarrow>
                    finish_row st teams category game_datetime (snd resolved)
                      (snd nows))))))))"

definition process_row ::
  "string list \<Rightarrow> datetime \<times> datetime \<Rightarrow> scan_state \<Rightarrow> node \<Rightarrow> py_error + scan_state" where
  "process_row team_names nows st row =
     (case bs_find (named ''h2'') row of
        Some date_header \<Rightarrow> Inr (st\<lparr>current_date_str := Some (get_text date_header)\<rparr>)
      | None \<Rightarrow>
          if ''schedule_container'' \<notin> set (classes row) then Inr st
          else if length (bs_find_all team_link row) < 2 then Inr st
          else process_game_row team_names nows st row)"

text \<open>The loop over the rows, each with its two clock readings.\<close>

fun process_rows ::
  "string list \<Rightarrow> scan_state \<Rightarrow> ((datetime \<times> datetime) \<times> node) list \<Rightarrow> py_error + scan_state" where
  "process_rows team_names st [] = Inr st"
| "process_rows team_names st ((nows, row) # rows) =
     (case process_row team_names nows st row of
        Inl e \<Rightarrow> Inl e
      | Inr st' \<Rightarrow> process_rows team_names st' rows)"

section \<open>The fetch\<close>

text \<open>
  What the browser answers during \<open>fetch_games\<close>: whether
  \<open>page.wait_for_selector("iframe", timeout=10000)\<close> sees the element in time
  (Playwright raises its \<open>TimeoutError\<close> when it does not), whether
  \<open>page.query_selector("iframe")\<close> finds an element, the parsed content of the frame
  page, and the clock readings of each row. Failures of the browser itself (launch,
  navigation) are not modelled.
\<close>

record browser =
  iframe_appears :: bool
  iframe_element :: bool
  frame_content :: node
  clock :: "nat \<Rightarrow> datetime \<times> datetime"

text \<open>
  \<open>fetch_games\<close>, started with \<open>self.games\<close> as given: the list it returns, or the
  exception that leaves it.
\<close>

definition fetch_games :: "string list \<Rightarrow> browser \<Rightarrow> game list \<Rightarrow> py_error + game list" where
  "fetch_games team_names b self_games =
     (if \<not> iframe_appears b then Inl TimeoutError
      else if \<not> iframe_element b then Inr self_games
      else (case bs_find (with_class ''table'' ''schedule_table'') (frame_content b) of
              None \<Rightarrow> Inr self_games
            | Some schedule_table \<Rightarrow>
                (let all_rows = bs_find_all (named ''tr'') schedule_table
                 in then_do
                      (process_rows team_names
                         \<lparr>games = self_games, current_date_str = None\<rparr>
                         (zip (map (clock b) [0..<length all_rows]) all_rows))
                      (\<lambda>st. Inr (games st)))))"

section \<open>The calendar writer\<close>

subsection \<open>Date texts\<close>

text \<open>
  \<open>t.strftime('%m/%d/%Y %I:%M:%S %p')\<close>: month, day, hour on the twelve-hour clock,
  minute and second with two digits, the year in decimal, and \<open>AM\<close> or \<open>PM\<close>. The
  timestamps formatted are those of games, whose fields are in range; whether a year
  below 1000 is padded is left to the C library, and the model does not pad it.
\<close>

definition digit_char :: "int \<Rightarrow> char" where
  "digit_char k = ''0123456789'' ! nat (k mod 10)"

function decimal :: "int \<Rightarrow> string" where
  "decimal n = (if n < 10 then [digit_char n] else decimal (n div 10) @ [digit_char n])"
  by pat_completeness auto
termination
  by (relation "measure nat") auto

declare decimal.simps [simp del]

definition pad2 :: "int \<Rightarrow> string" where
  "pad2 n = (if n < 10 then CHR ''0'' # decimal n else decimal n)"

definition hour12 :: "int \<Rightarrow> int" where
  "hour12 h = (if h mod 12 = 0 then 12 else h mod 12)"

definition strftime :: "datetime \<Rightarrow> string" where
  "strftime t =
     pad2 (month t) @ ''/'' @ pad2 (day t) @ ''/'' @ decimal (year t) @ '' ''
     @ pad2 (hour12 (hour t)) @ '':'' @ pad2 (minute t) @ '':'' @ pad2 (second t) @ '' ''
     @ (if hour t < 12 then ''AM'' else ''PM'')"

subsection \<open>The calendar store behind \<open>osascript\<close>\<close>

text \<open>
  The store of the Calendar application: for the name of each calendar that exists,
  its events in the order of their creation. The start and end of an event are kept
  as the date texts that the scripts hand to \<open>date "..."\<close>, so two events start at
  the same date when these texts agree.
\<close>

record event =
  summary :: string
  start_date :: string
  end_date :: string
  event_location :: string
  description :: string

type_synonym calendar_store = "string \<Rightarrow> event list option"

text \<open>
  \<open>subprocess.run(["osascript", "-e", script], check=True, ...)\<close> has three outcomes.
  A script text that holds the character U+0000 cannot be handed to a process:
  \<open>subprocess.run\<close> raises \<open>ValueError\<close> before anything runs. When \<open>osascript\<close>
  ends with an error, \<open>check=True\<close> raises \<open>CalledProcessError\<close>. Otherwise the
  script has run. That \<open>osascript\<close> exists on the machine is taken for granted.
\<close>

definition has_nul :: "string \<Rightarrow> bool" where
  "has_nul s = (CHR 0x00 \<in> set s)"

text \<open>
  The scripts put \<open>calendar_name\<close>, the title, the location and the notes between
  double quotes without escaping. A text without double quote and backslash stands
  for itself there. Otherwise the quotes of the script no longer pair up as written;
  the model takes the script as one that does not compile, so \<open>osascript\<close> ends with
  an error.
\<close>

definition applescript_text_ok :: "string \<Rightarrow> bool" where
  "applescript_text_ok s = (CHR 0x22 \<notin> set s \<and> CHR 0x5C \<notin> set s)"

text \<open>
  The check script: inside \<open>tell calendar\<close>, is there an event whose start date is the
  date and whose summary \<open>is\<close> the title? The script fails when the calendar does not
  exist. Which texts the AppleScript comparison \<open>is\<close> takes for the same (whether it
  looks at the case of letters, for one) is not to be seen in the source; the
  argument \<open>norm\<close> stands for it: two texts are the same to \<open>is\<close> when \<open>norm\<close> maps
  them to one text.
\<close>

definition check_script ::
  "(string \<Rightarrow> string) \<Rightarrow> calendar_store \<Rightarrow> string \<Rightarrow> string \<Rightarrow> string \<Rightarrow> py_error + bool" where
  "check_script norm cs calendar_name start_str ttl =
     (if has_nul calendar_name \<or> has_nul start_str \<or> has_nul ttl then Inl ValueError
      else if \<not> (applescript_text_ok calendar_name \<and> applescript_text_ok start_str
                  \<and> applescript_text_ok ttl)
      then Inl CalledProcessError
      else (case cs calendar_name of
              None \<Rightarrow> Inl CalledProcessError
            | Some evs \<Rightarrow>
                Inr (list_ex (\<lambda>evt. start_date evt = start_str \<and> norm (summary evt) = norm ttl)
                       evs)))"

text \<open>The add script: \<open>make new event\<close> in the calendar.\<close>

definition add_script ::
  "calendar_store \<Rightarrow> string \<Rightarrow> event \<Rightarrow> py_error + calendar_store" where
  "add_script cs calendar_name ev =
     (if has_nul calendar_name \<or> has_nul (summary ev) \<or> has_nul (start_date ev)
         \<or> has_nul (end_date ev) \<or> has_nul (event_location ev) \<or> has_nul (description ev)
      then Inl ValueError
      else if \<not> (applescript_text_ok calendar_name \<and> applescript_text_ok (summary ev)
             \<and> applescript_text_ok (start_date ev) \<and> applescript_text_ok (end_date ev)
             \<and> applescript_text_ok (event_location ev) \<and> applescript_text_ok (description ev))
      then Inl CalledProcessError
      else (case cs calendar_name of
              None \<Rightarrow> Inl CalledProcessError
            | Some evs \<Rightarrow> Inr (cs(calendar_name \<mapsto> evs @ [ev]))))"

subsection \<open>\<open>add_to_calendar\<close>\<close>

record writer_state =
  store :: calendar_store
  added_count :: nat
  skipped_count :: nat

definition event_of_game :: "game \<Rightarrow> event" where
  "event_of_game g =
     \<lparr>summary = title g, start_date = strftime (start g), end_date = strftime (end_dt g),
      event_location = location g, description = notes_str g\<rparr>"

text \<open>
  The second \<open>try\<close> of the loop body: the add script. \<open>CalledProcessError\<close> is caught
  and leaves the store as it is; any other exception leaves the function.
\<close>

definition try_add :: "writer_state \<Rightarrow> game \<Rightarrow> py_error + writer_state" where
  "try_add w g =
     (case add_script (store w) (calendar g) (event_of_game g) of
        Inl CalledProcessError \<Rightarrow> Inr w
      | Inl e \<Rightarrow> Inl e
      | Inr cs \<Rightarrow> Inr (w\<lparr>store := cs, added_count := added_count w + 1\<rparr>))"

text \<open>
  The body of \<open>for game in self.games\<close>: an event that exists is skipped; when the
  check says no, or fails with \<open>CalledProcessError\<close>, the add is tried; any other
  exception of the check leaves the function.
\<close>

definition add_game ::
  "(string \<Rightarrow> string) \<Rightarrow> writer_state \<Rightarrow> game \<Rightarrow> py_error + writer_state" where
  "add_game norm w g =
     (case check_script norm (store w) (calendar g) (strftime (start g)) (title g) of
        Inr found \<Rightarrow>
          if found then Inr (w\<lparr>skipped_count := skipped_count w + 1\<rparr>) else try_add w g
      | Inl CalledProcessError \<Rightarrow> try_add w g
      | Inl e \<Rightarrow> Inl e)"

fun write_games ::
  "(string \<Rightarrow> string) \<Rightarrow> writer_state \<Rightarrow> game list \<Rightarrow> py_error + writer_state" where
  "write_games norm w [] = Inr w"
| "write_games norm w (g # gs) = then_do (add_game norm w g) (\<lambda>w'. write_games norm w' gs)"

text \<open>
  \<open>add_to_calendar\<close> on the store as it is found: the store and the two counters at
  the end, or the exception that leaves the function.
\<close>

definition add_to_calendar ::
  "(string \<Rightarrow> string) \<Rightarrow> calendar_store \<Rightarrow> game list \<Rightarrow> py_error + writer_state" where
  "add_to_calendar norm cs self_games =
     (if self_games = [] then Inr \<lparr>store = cs, added_count = 0, skipped_count = 0\<rparr>
      else write_games norm \<lparr>store = cs, added_count = 0, skipped_count = 0\<rparr> self_games)"

section \<open>Inputs of the scenarios\<close>

definition today :: datetime where
  "today = \<lparr>year = 2024, month = 12, day = 20, hour = 9, minute = 30,
             second = 12, microsecond = 345\<rparr>"

definition lundi_15_decembre :: string where
  "lundi_15_decembre = ''lundi, 15 d'' @ [CHR 0xE9] @ ''cembre''"

text \<open>
  The form \<open>H:MM\<close> or \<open>HH:MM\<close> of a time text: one or two digits, a colon, two digits,
  and nothing else.
\<close>

definition time_form :: "string \<Rightarrow> bool" where
  "time_form s =
     (let h = takeWhile (\<lambda>c. c \<noteq> CHR '':'') s; m = drop (length h + 1) s
      in s = h @ '':'' @ m \<and> (length h = 1 \<or> length h = 2) \<and> length m = 2
         \<and> list_all is_digit h \<and> list_all is_digit m)"

text \<open>
  How \<open>re.search\<close> of \<open>(\d+):(\d+)\<close> reads a text. The text begins with a time when
  it begins with the digits \<open>h\<close>, a colon and the digits \<open>m\<close>, and no digit follows
  \<open>m\<close> (the groups take all the digits there are). The first time of a text is the
  time at the leftmost position at which the rest of the text begins with a time.
\<close>

definition time_starts :: "string \<Rightarrow> string \<Rightarrow> string \<Rightarrow> bool" where
  "time_starts s h m =
     (\<exists>post. s = h @ '':'' @ m @ post \<and> h \<noteq> [] \<and> m \<noteq> []
        \<and> list_all is_digit h \<and> list_all is_digit m
        \<and> (post = [] \<or> \<not> is_digit (hd post)))"

definition first_time :: "string \<Rightarrow> string \<Rightarrow> string \<Rightarrow> bool" where
  "first_time s h m =
     (\<exists>pre rest. s = pre @ rest \<and> time_starts rest h m
        \<and> (\<forall>p1 p2 h' m'. pre = p1 @ p2 \<and> p2 \<noteq> [] \<longrightarrow> \<not> time_starts (p2 @ rest) h' m'))"

text \<open>
  A game row in the absolute encoding: category, the two team links, a cell with the
  date, a cell with the time and the venue.
\<close>

definition sample_row :: node where
  "sample_row =
     Tag ''tr'' [''schedule_container''] None
       [Tag ''td'' [] None
          [Tag ''div'' [''cat_name''] None [Tag ''span'' [] None [Text ''Hockey A'']]],
        Tag ''td'' [] None
          [Tag ''a'' [] (Some ''/equipes/1'') [Text ''Team A''],
           Tag ''a'' [] (Some ''/equipes/2'') [Text ''Team B'']],
        Tag ''td'' [] None [Tag ''div'' [''game_date''] None [Text ''2024-12-15'']],
        Tag ''td'' [] None
          [Tag ''div'' [''game_date''] None [Text ''18:00''],
           Tag ''div'' [''game_venue''] None [Text ''Arena (St-Aug)'']]]"

definition sample_start :: datetime where
  "sample_start = \<lparr>year = 2024, month = 12, day = 15, hour = 18, minute = 0,
                    second = 0, microsecond = 0\<rparr>"

definition sample_end :: datetime where
  "sample_end = \<lparr>year = 2024, month = 12, day = 15, hour = 18, minute = 50,
                  second = 0, microsecond = 0\<rparr>"

definition run_time :: datetime where
  "run_time = \<lparr>year = 2024, month = 12, day = 1, hour = 8, minute = 0,
                second = 30, microsecond = 250\<rparr>"

definition empty_state :: scan_state where
  "empty_state = \<lparr>games = [], current_date_str = None\<rparr>"

text \<open>
  A venue contains a marker without regard to case: some part of the venue text has
  the same lower-case form as the marker.
\<close>

definition ci_contains :: "string \<Rightarrow> string \<Rightarrow> bool" where
  "ci_contains marker venue = (\<exists>pre w post. venue = pre @ w @ post \<and> lower w = lower marker)"

definition centre_levis :: string where
  "centre_levis = ''Centre L'' @ [CHR 0xE9] @ ''vis''"

text \<open>
  What a cell of a row offers to the date code: the text of its first \<open>game_date\<close>
  element and the text of its first \<open>game_venue\<close> element.
\<close>

definition date_of_cell :: "node \<Rightarrow> string option" where
  "date_of_cell td = map_option get_text (bs_find (with_class ''div'' ''game_date'') td)"

definition venue_of_cell :: "node \<Rightarrow> string option" where
  "venue_of_cell td = map_option get_text (bs_find (with_class ''div'' ''game_venue'') td)"

text \<open>
  A row in the absolute encoding: cells without date information, then the cell with
  the date text, then the cell with the time text and the venue text, then any
  cells.
\<close>

definition absolute_cells :: "node \<Rightarrow> string \<Rightarrow> string \<Rightarrow> string \<Rightarrow> bool" where
  "absolute_cells row date_text time_text venue_text =
     (\<exists>pre date_cell time_cell post.
        bs_find_all (named ''td'') row = pre @ [date_cell, time_cell] @ post
        \<and> list_all (\<lambda>c. date_of_cell c = None) pre
        \<and> date_of_cell date_cell = Some date_text
        \<and> date_of_cell time_cell = Some time_text
        \<and> venue_of_cell time_cell = Some venue_text)"

text \<open>
  Minutes on the proleptic Gregorian calendar, to say what adding fifty minutes means:
  the days before a year, the days before a month of a year, the number of a day
  (1 for 0001-01-01), and the minutes from the start of day 0 to a timestamp.
\<close>

definition days_before_year :: "int \<Rightarrow> int" where
  "days_before_year y = 365 * (y - 1) + (y - 1) div 4 - (y - 1) div 100 + (y - 1) div 400"

definition days_before_month :: "int \<Rightarrow> int \<Rightarrow> int" where
  "days_before_month y m = sum_list (map (days_in_month y) [1..m - 1])"

definition ordinal :: "int \<times> int \<times> int \<Rightarrow> int" where
  "ordinal ymd = (case ymd of (y, m, d) \<Rightarrow> days_before_year y + days_before_month y m + d)"

definition dt_minutes :: "datetime \<Rightarrow> int" where
  "dt_minutes t = (ordinal (year t, month t, day t) * 24 + hour t) * 60 + minute t"

definition valid_date :: "int \<times> int \<times> int \<Rightarrow> bool" where
  "valid_date ymd =
     (case ymd of (y, m, d) \<Rightarrow> 1 \<le> m \<and> m \<le> 12 \<and> 1 \<le> d \<and> d \<le> days_in_month y m)"

text \<open>The three calendars, and what holds of every game the row loop appends.\<close>

definition buckets :: "string list" where
  "buckets = [''Dek St-Aug'', ''Dek Chauveau'', ''Autre'']"

definition game_invariant :: "game \<Rightarrow> bool" where
  "game_invariant g =
     (add_minutes (start g) 50 = Inr (end_dt g)
      \<and> dt_minutes (end_dt g) = dt_minutes (start g) + 50
      \<and> second (end_dt g) = second (start g)
      \<and> microsecond (end_dt g) = microsecond (start g)
      \<and> calendar g \<in> set buckets)"

definition sample_game :: game where
  "sample_game =
     \<lparr>title = ''game Hockey'', start = sample_start, end_dt = sample_end,
       location = [], notes_str = ''Team A @ Team B'' @ [CHR 0x0A] @ ''Arena'',
       calendar = ''Dek St-Aug'', our_team = ''Team A'', opponent = ''Team B'',
       is_home = False\<rparr>"

text \<open>A page on which no frame element ever appears.\<close>

definition no_frame_page :: browser where
  "no_frame_page =
     \<lparr>iframe_appears = False, iframe_element = False,
      frame_content = Tag ''html'' [] None [],
      clock = (\<lambda>k. (today, run_time))\<rparr>"

text \<open>
  The calendar store with the three calendars, each without events, and a game whose
  title holds the character U+0000 (a category label of the site that holds it).
\<close>

definition empty_calendars :: calendar_store where
  "empty_calendars = (\<lambda>c. if c \<in> set buckets then Some [] else None)"

definition nul_title_game :: game where
  "nul_title_game = sample_game\<lparr>title := ''game Hockey'' @ [CHR 0x00]\<rparr>"

definition initial_writer :: "calendar_store \<Rightarrow> writer_state" where
  "initial_writer cs = \<lparr>store = cs, added_count = 0, skipped_count = 0\<rparr>"

text \<open>
  The key under which the check script looks a game up: calendar, date text of the
  start, and the title as the comparison takes it.
\<close>

definition game_key :: "(string \<Rightarrow> string) \<Rightarrow> game \<Rightarrow> string \<times> string \<times> string" where
  "game_key norm g = (calendar g, strftime (start g), norm (title g))"

definition event_key :: "(string \<Rightarrow> string) \<Rightarrow> event \<Rightarrow> string \<times> string" where
  "event_key norm e = (start_date e, norm (summary e))"

text \<open>
  The games whose texts the scripts carry as they are: no U+0000, no double quote
  and no backslash in calendar name, title, location and notes.
\<close>

definition script_safe :: "game \<Rightarrow> bool" where
  "script_safe g =
     (applescript_text_ok (calendar g) \<and> applescript_text_ok (title g)
      \<and> applescript_text_ok (location g) \<and> applescript_text_ok (notes_str g)
      \<and> \<not> has_nul (calendar g) \<and> \<not> has_nul (title g)
      \<and> \<not> has_nul (location g) \<and> \<not> has_nul (notes_str g))"

definition matching_events :: "(string \<Rightarrow> string) \<Rightarrow> calendar_store \<Rightarrow> game \<Rightarrow> event list" where
  "matching_events norm cs g =
     (case cs (calendar g) of
        None \<Rightarrow> []
      | Some evs \<Rightarrow>
          filter (\<lambda>e. start_date e = strftime (start g) \<and> norm (summary e) = norm (title g)) evs)"

text \<open>
  What holds of the writer's state after the games \<open>ps\<close>, for the calendars \<open>bs\<close>: each
  calendar holds one event for each key of a game of \<open>ps\<close> in it, and the counters
  count the keys and the games.
\<close>

definition writer_inv ::
  "(string \<Rightarrow> string) \<Rightarrow> string set \<Rightarrow> writer_state \<Rightarrow> game list \<Rightarrow> bool" where
  "writer_inv norm bs w ps =
     ((\<forall>c\<in>bs. \<exists>evs. store w c = Some evs \<and> distinct (map (event_key norm) evs)
          \<and> set (map (event_key norm) evs)
              = {snd (game_key norm g) | g. g \<in> set ps \<and> calendar g = c})
      \<and> added_count w = card (game_key norm ` set ps)
      \<and> skipped_count w + added_count w = length ps)"

section \<open>Properties of the date resolution\<close>

lemma datetime_new_fields:
  "datetime_new y m d hh mm = Inr t \<Longrightarrow>
     year t = y \<and> month t = m \<and> day t = d \<and> hour t = hh \<and> minute t = mm
     \<and> second t = 0 \<and> microsecond t = 0"
  by (auto simp: datetime_new_def split: if_splits)

lemma datetime_new_valid:
  "datetime_new y m d hh mm = Inr t \<Longrightarrow>
     1 \<le> y \<and> y \<le> 9999 \<and> 1 \<le> m \<and> m \<le> 12 \<and> 1 \<le> d \<and> d \<le> days_in_month y m
     \<and> 0 \<le> hh \<and> hh \<le> 23 \<and> 0 \<le> mm \<and> mm \<le> 59"
  by (auto simp: datetime_new_def split: if_splits)

lemma py_int_value: "py_int ds = Inr n \<Longrightarrow> n = digits_val ds \<and> ds \<noteq> [] \<and> list_all is_digit ds"
  by (auto simp: py_int_def split: if_splits)

lemma parse_french_date_Some:
  assumes "parse_french_date now date_str time_str year_arg = Inr (Some t)"
  shows "\<exists>day_text month_text hour_text minute_text.
    search_day_month date_str = Some (day_text, month_text)
    \<and> py_int day_text = Inr (day t)
    \<and> map_of FRENCH_MONTHS (lower month_text) = Some (month t)
    \<and> year t = (case year_arg of None \<Rightarrow> infer_year now (month t) (day t) | Some y \<Rightarrow> y)
    \<and> search_time time_str = Some (hour_text, minute_text)
    \<and> py_int hour_text = Inr (hour t)
    \<and> py_int minute_text = Inr (minute t)
    \<and> datetime_new (year t) (month t) (day t) (hour t) (minute t) = Inr t"
proof -
  from assms obtain day_text month_text where
    s1: "search_day_month date_str = Some (day_text, month_text)"
    by (auto simp: parse_french_date_def split: option.splits)
  with assms obtain d where d: "py_int day_text = Inr d"
    by (auto simp: parse_french_date_def split: sum.splits)
  with assms s1 obtain m where m: "map_of FRENCH_MONTHS (lower month_text) = Some m"
    by (auto simp: parse_french_date_def split: option.splits)
  define y where "y = (case year_arg of None \<Rightarrow> infer_year now m d | Some y' \<Rightarrow> y')"
  from assms s1 d m obtain hour_text minute_text where
    s2: "search_time time_str = Some (hour_text, minute_text)"
    by (auto simp: parse_french_date_def Let_def split: option.splits)
  with assms s1 d m obtain hh where hh: "py_int hour_text = Inr hh"
    by (auto simp: parse_french_date_def Let_def split: sum.splits)
  with assms s1 d m s2 obtain mm where mm: "py_int minute_text = Inr mm"
    by (auto simp: parse_french_date_def Let_def split: sum.splits)
  with assms s1 d m s2 hh have new: "datetime_new y m d hh mm = Inr t"
    by (auto simp: parse_french_date_def Let_def y_def split: sum.splits py_error.splits)
  from datetime_new_fields [OF new] have f: "year t = y" "month t = m" "day t = d"
    "hour t = hh" "minute t = mm" by simp_all
  show ?thesis
    using s1 d m s2 hh mm new f y_def by auto
qed


lemma colon_not_digit: "\<not> is_digit CHR '':''"
  by (simp add: is_digit_def)

lemma takeWhile_digits:
  assumes "list_all is_digit h" and "rest = [] \<or> \<not> is_digit (hd rest)"
  shows "takeWhile is_digit (h @ rest) = h" and "dropWhile is_digit (h @ rest) = rest"
proof -
  from assms(1) have all: "\<And>x. x \<in> set h \<Longrightarrow> is_digit x" by (simp add: list_all_iff)
  from assms(2) have t: "takeWhile is_digit rest = []" and d: "dropWhile is_digit rest = rest"
    by (cases rest; simp)+
  show "takeWhile is_digit (h @ rest) = h"
    using all t by (simp add: takeWhile_append2)
  show "dropWhile is_digit (h @ rest) = rest"
    using all d by (simp add: dropWhile_append2)
qed

lemma match_time_iff: "match_time s = Some (h, m) \<longleftrightarrow> time_starts s h m"
proof
  assume a: "match_time s = Some (h, m)"
  then obtain r2 where r: "dropWhile is_digit s = CHR '':'' # r2"
    and h: "h = takeWhile is_digit s" "h \<noteq> []" and m: "m = takeWhile is_digit r2" "m \<noteq> []"
    by (auto simp: match_time_def Let_def split: list.splits if_splits)
  define post where "post = dropWhile is_digit r2"
  have "s = takeWhile is_digit s @ dropWhile is_digit s" by simp
  also have "\<dots> = h @ CHR '':'' # (takeWhile is_digit r2 @ dropWhile is_digit r2)"
    using r h by simp
  finally have s: "s = h @ '':'' @ m @ post" using m by (simp add: post_def)
  have dg: "list_all is_digit h" "list_all is_digit m"
    using h m by (auto simp: list_all_iff dest: set_takeWhileD)
  have "post = [] \<or> \<not> is_digit (hd post)"
    unfolding post_def by (metis hd_dropWhile)
  with s dg h(2) m(2) show "time_starts s h m"
    unfolding time_starts_def by blast
next
  assume "time_starts s h m"
  then obtain post where s: "s = h @ '':'' @ m @ post" and ne: "h \<noteq> []" "m \<noteq> []"
    and dg: "list_all is_digit h" "list_all is_digit m"
    and p: "post = [] \<or> \<not> is_digit (hd post)"
    by (auto simp: time_starts_def)
  have c: "CHR '':'' # m @ post = [] \<or> \<not> is_digit (hd (CHR '':'' # m @ post))"
    by (simp add: colon_not_digit)
  have t1: "takeWhile is_digit s = h" and d1: "dropWhile is_digit s = CHR '':'' # m @ post"
    using takeWhile_digits [OF dg(1) c] s by simp_all
  have t2: "takeWhile is_digit (m @ post) = m"
    using takeWhile_digits(1) [OF dg(2) p] .
  show "match_time s = Some (h, m)"
    by (simp add: match_time_def Let_def t1 d1 t2 ne)
qed

lemma search_time_first: "search_time s = Some (h, m) \<Longrightarrow> first_time s h m"
proof (induction s)
  case Nil
  then show ?case by simp
next
  case (Cons c cs)
  show ?case
  proof (cases "match_time (c # cs)")
    case (Some r)
    with Cons.prems have "match_time (c # cs) = Some (h, m)" by simp
    then have "time_starts (c # cs) h m" by (simp add: match_time_iff)
    then have "c # cs = [] @ (c # cs) \<and> time_starts (c # cs) h m
        \<and> (\<forall>p1 p2 h' m'. [] = p1 @ p2 \<and> p2 \<noteq> [] \<longrightarrow> \<not> time_starts (p2 @ c # cs) h' m')"
      by simp
    then show ?thesis unfolding first_time_def by blast
  next
    case None
    with Cons.prems have "search_time cs = Some (h, m)" by simp
    from Cons.IH [OF this] obtain pre rest where cs: "cs = pre @ rest"
      and st: "time_starts rest h m"
      and left: "\<forall>p1 p2 h' m'. pre = p1 @ p2 \<and> p2 \<noteq> [] \<longrightarrow> \<not> time_starts (p2 @ rest) h' m'"
      unfolding first_time_def by blast
    have "\<forall>p1 p2 h' m'. c # pre = p1 @ p2 \<and> p2 \<noteq> [] \<longrightarrow> \<not> time_starts (p2 @ rest) h' m'"
    proof (intro allI impI)
      fix p1 p2 h' m'
      assume a: "c # pre = p1 @ p2 \<and> p2 \<noteq> []"
      show "\<not> time_starts (p2 @ rest) h' m'"
      proof (cases p1)
        case Nil
        with a cs have "p2 @ rest = c # cs" by simp
        moreover from None have "\<not> time_starts (c # cs) h' m'"
          by (simp add: match_time_iff [symmetric])
        ultimately show ?thesis by simp
      next
        case (Cons x xs)
        with a have "pre = xs @ p2 \<and> p2 \<noteq> []" by simp
        with left show ?thesis by blast
      qed
    qed
    moreover have "c # cs = (c # pre) @ rest" using cs by simp
    ultimately show ?thesis using st unfolding first_time_def by blast
  qed
qed

lemma first_time_search: "first_time s h m \<Longrightarrow> search_time s = Some (h, m)"
proof -
  assume "first_time s h m"
  then obtain pre rest where s: "s = pre @ rest" and st: "time_starts rest h m"
    and left: "\<forall>p1 p2 h' m'. pre = p1 @ p2 \<and> p2 \<noteq> [] \<longrightarrow> \<not> time_starts (p2 @ rest) h' m'"
    unfolding first_time_def by blast
  from left have "search_time (pre @ rest) = Some (h, m)"
  proof (induction pre)
    case Nil
    from st have m: "match_time rest = Some (h, m)" by (simp add: match_time_iff)
    from st have "rest \<noteq> []" by (auto simp: time_starts_def)
    then obtain c cs where "rest = c # cs" by (cases rest) auto
    with m show ?case by simp
  next
    case (Cons c pre)
    from Cons.prems have "\<forall>h' m'. \<not> time_starts ((c # pre) @ rest) h' m'"
      by (metis append_Nil list.distinct(1))
    then have none: "match_time (c # pre @ rest) = None"
      by (cases "match_time (c # pre @ rest)") (auto simp: match_time_iff)
    have "\<forall>p1 p2 h' m'. pre = p1 @ p2 \<and> p2 \<noteq> [] \<longrightarrow> \<not> time_starts (p2 @ rest) h' m'"
    proof (intro allI impI)
      fix p1 p2 h' m'
      assume "pre = p1 @ p2 \<and> p2 \<noteq> []"
      then have "c # pre = (c # p1) @ p2 \<and> p2 \<noteq> []" by simp
      with Cons.prems show "\<not> time_starts (p2 @ rest) h' m'" by blast
    qed
    from Cons.IH [OF this] none show ?case by simp
  qed
  with s show ?thesis by simp
qed

lemma first_time_unique:
  "first_time s h m \<Longrightarrow> first_time s h' m' \<Longrightarrow> h' = h \<and> m' = m"
  by (auto dest!: first_time_search)

subsection \<open>The inferred year\<close>



subsection \<open>The time text\<close>

text \<open>
  Claim C4, as stated: a time text that is not of the form \<open>H:MM\<close> or \<open>HH:MM\<close> yields no
  timestamp. The code searches the text for digits, a colon and digits, so a text
  with seconds is accepted.
\<close>

theorem time_with_seconds_counterexample:
  "\<not> time_form ''18:00:00''
   \<and> parse_french_date today lundi_15_decembre ''18:00:00'' None
       = Inr (Some \<lparr>year = 2025, month = 12, day = 15, hour = 18, minute = 0,
                     second = 0, microsecond = 0\<rparr>)"
  by code_simp

text \<open>
  Claim C4, amended. \<open>parse_french_date\<close> returns a timestamp only when the time text
  contains one or more digits, a colon, and one or more digits. It reads the leftmost
  such place, with all the digits that stand on either side of the colon there, and
  the hour and the minute of the timestamp are these two numbers: the text has
  exactly one first time, and it is the one read. A time text without such a place
  yields no timestamp.
\<close>

theorem parse_french_date_reads_first_time:
  "parse_french_date now date_str time_str year_arg = Inr (Some t) \<Longrightarrow>
     \<exists>h m. first_time time_str h m
        \<and> (\<forall>h' m'. first_time time_str h' m' \<longrightarrow> h' = h \<and> m' = m)
        \<and> hour t = digits_val h \<and> minute t = digits_val m"
proof -
  assume "parse_french_date now date_str time_str year_arg = Inr (Some t)"
  from parse_french_date_Some [OF this] obtain h m where
    s: "search_time time_str = Some (h, m)" and
    hh: "py_int h = Inr (hour t)" and mm: "py_int m = Inr (minute t)"
    by blast
  have f: "first_time time_str h m" using s by (rule search_time_first)
  have "hour t = digits_val h" "minute t = digits_val m"
    using py_int_value [OF hh] py_int_value [OF mm] by simp_all
  with f first_time_unique [OF f] show ?thesis by blast
qed

theorem parse_french_date_reads_first_time_witness:
  "parse_french_date today lundi_15_decembre ''18:35:07'' None
     = Inr (Some \<lparr>year = 2025, month = 12, day = 15, hour = 18, minute = 35,
                   second = 0, microsecond = 0\<rparr>)
   \<and> first_time ''18:35:07'' ''18'' ''35''
   \<and> digits_val ''18'' = 18 \<and> digits_val ''35'' = 35"
proof -
  let ?t = "\<lparr>year = 2025, month = 12, day = 15, hour = 18, minute = 35,
             second = 0, microsecond = 0\<rparr>"
  have p: "parse_french_date today lundi_15_decembre ''18:35:07'' None = Inr (Some ?t)"
    by code_simp
  have "search_time ''18:35:07'' = Some (''18'', ''35'')" by code_simp
  then have f: "first_time ''18:35:07'' ''18'' ''35''" by (rule search_time_first)
  from parse_french_date_reads_first_time [OF p] obtain h m where
    u: "\<forall>h' m'. first_time ''18:35:07'' h' m' \<longrightarrow> h' = h \<and> m' = m"
    and v: "hour ?t = digits_val h" "minute ?t = digits_val m"
    by blast
  from u f have "h = ''18''" "m = ''35''" by blast+
  with v have "digits_val ''18'' = 18" "digits_val ''35'' = 35" by simp_all
  with p f show ?thesis by blast
qed

subsection \<open>Exceptions that leave the date resolution\<close>

text \<open>
  Claim C5: \<open>parse_french_date\<close> never raises. The \<open>try\<close> around the constructor catches
  \<open>ValueError\<close>; a day number that does not fit a C \<open>int\<close> makes the constructor raise
  \<open>OverflowError\<close>, which leaves the function.
\<close>

theorem parse_french_date_raises_overflow:
  "parse_french_date today (''99999999999 d'' @ [CHR 0xE9] @ ''cembre'') ''18:00'' None
     = Inl OverflowError"
  by code_simp

section \<open>Properties of the row loop\<close>

lemma then_do_Inr [simp]: "then_do (Inr x) f = f x"
  by (simp add: then_do_def)

lemma then_do_Inl [simp]: "then_do (Inl e) f = Inl e"
  by (simp add: then_do_def)

lemma then_do_eq_Inr: "then_do r f = Inr y \<longleftrightarrow> (\<exists>x. r = Inr x \<and> f x = Inr y)"
  by (cases r) simp_all

lemma match_team_pair:
  "match_team cfg [a, b] 0 [a, b] =
     Inr (if a \<in> set cfg then Some (a, b, False)
          else if b \<in> set cfg then Some (b, a, True) else None)"
  by (simp add: py_index_def)

lemma length_dedupe: "length (dedupe seen ts) \<le> length ts"
  by (induction ts arbitrary: seen) (auto simp: le_SucI)

lemma length_extract_team_names:
  "length (extract_team_names row) \<le> length (bs_find_all team_link row)"
proof -
  have "length (extract_team_names row)
      \<le> length (filter (\<lambda>t. t \<noteq> []) (map get_text (bs_find_all team_link row)))"
    unfolding extract_team_names_def by (rule length_dedupe)
  also have "\<dots> \<le> length (map get_text (bs_find_all team_link row))"
    by (rule length_filter_le)
  finally show ?thesis by simp
qed

lemma finish_row_cases:
  assumes "finish_row st (our, opp, home) category t venue now = Inr st'"
  shows "st' = st \<or>
     (\<not> dt_less t now \<and>
      (\<exists>cal ttl e. route_venue venue category = Some (cal, ttl) \<and> add_minutes t 50 = Inr e
         \<and> st' = st\<lparr>games := games st @
                 [\<lparr>title = ttl, start = t, end_dt = e, location = [],
                   notes_str = make_notes home our opp venue, calendar = cal,
                   our_team = our, opponent = opp, is_home = home\<rparr>]\<rparr>))"
  using assms
  by (auto simp: finish_row_def then_do_eq_Inr split: if_splits option.splits)

lemma process_game_row_cases:
  assumes "process_game_row cfg nows st row = Inr st'"
  shows "st' = st \<or>
     (\<exists>teams category found resolved t.
        match_team cfg (extract_team_names row) 0 (extract_team_names row) = Inr (Some teams)
        \<and> 2 \<le> length (extract_team_names row)
        \<and> fst teams \<noteq> []
        \<and> extract_category row = Inr category
        \<and> scan_tds (bs_find_all (named ''td'') row) (bs_find_all (named ''td'') row) = Inr found
        \<and> relative_date (fst nows) (current_date_str st) row found = Inr resolved
        \<and> fst resolved = Some t
        \<and> finish_row st teams category t (snd resolved) (snd nows) = Inr st')"
proof (cases "st' = st")
  case True
  then show ?thesis by simp
next
  case False
  let ?names = "extract_team_names row"
  from assms False have len: "2 \<le> length ?names"
    by (auto simp: process_game_row_def Let_def split: if_splits)
  with assms obtain matched where m: "match_team cfg ?names 0 ?names = Inr matched"
    and r1: "(case matched of
           None \<Rightarrow> Inr st
         | Some teams \<Rightarrow>
             if fst teams = [] then Inr st
             else
             then_do (extract_category row) (\<lambda>category.
             then_do (let td_elements = bs_find_all (named ''td'') row
                      in scan_tds td_elements td_elements) (\<lambda>found.
             then_do (relative_date (fst nows) (current_date_str st) row found) (\<lambda>resolved.
               (case fst resolved of
                  None \<Rightarrow> Inr st
                | Some game_datetime \<Rightarrow>
                    finish_row st teams category game_datetime (snd resolved)
                      (snd nows)))))) = Inr st'"
    by (auto simp: process_game_row_def Let_def then_do_eq_Inr)
  from r1 False obtain teams where t: "matched = Some teams" and ne: "fst teams \<noteq> []"
    by (cases matched) (auto split: if_splits)
  from r1 t ne obtain category found resolved where
    c: "extract_category row = Inr category"
    and s: "scan_tds (bs_find_all (named ''td'') row) (bs_find_all (named ''td'') row) = Inr found"
    and r: "relative_date (fst nows) (current_date_str st) row found = Inr resolved"
    and r2: "(case fst resolved of
                  None \<Rightarrow> Inr st
                | Some game_datetime \<Rightarrow>
                    finish_row st teams category game_datetime (snd resolved)
                      (snd nows)) = Inr st'"
    by (auto simp: then_do_eq_Inr Let_def)
  from r2 False obtain gd where gd: "fst resolved = Some gd"
    and f: "finish_row st teams category gd (snd resolved) (snd nows) = Inr st'"
    by (cases "fst resolved") auto
  from m t len ne c s r gd f show ?thesis by blast
qed

lemma process_row_cases:
  assumes "process_row cfg nows st row = Inr st'"
  shows "(\<exists>h. st' = st\<lparr>current_date_str := Some h\<rparr>) \<or> st' = st \<or>
     (bs_find (named ''h2'') row = None \<and> ''schedule_container'' \<in> set (classes row)
      \<and> process_game_row cfg nows st row = Inr st')"
  using assms
  by (auto simp: process_row_def split: if_splits option.splits)

lemma process_row_appended:
  assumes "process_row cfg nows st row = Inr st'" and "games st' \<noteq> games st"
  shows "\<exists>our opp home category found resolved t cal ttl e.
        match_team cfg (extract_team_names row) 0 (extract_team_names row)
          = Inr (Some (our, opp, home))
        \<and> 2 \<le> length (extract_team_names row)
        \<and> extract_category row = Inr category
        \<and> scan_tds (bs_find_all (named ''td'') row) (bs_find_all (named ''td'') row) = Inr found
        \<and> relative_date (fst nows) (current_date_str st) row found = Inr resolved
        \<and> fst resolved = Some t
        \<and> \<not> dt_less t (snd nows)
        \<and> route_venue (snd resolved) category = Some (cal, ttl)
        \<and> add_minutes t 50 = Inr e
        \<and> st' = st\<lparr>games := games st @
                 [\<lparr>title = ttl, start = t, end_dt = e, location = [],
                   notes_str = make_notes home our opp (snd resolved), calendar = cal,
                   our_team = our, opponent = opp, is_home = home\<rparr>]\<rparr>"
proof -
  from process_row_cases [OF assms(1)] assms(2)
  have "process_game_row cfg nows st row = Inr st'" by auto
  from process_game_row_cases [OF this] assms(2)
  obtain teams category found resolved t where
    m: "match_team cfg (extract_team_names row) 0 (extract_team_names row) = Inr (Some teams)"
    and l: "2 \<le> length (extract_team_names row)"
    and c: "extract_category row = Inr category"
    and s: "scan_tds (bs_find_all (named ''td'') row) (bs_find_all (named ''td'') row) = Inr found"
    and r: "relative_date (fst nows) (current_date_str st) row found = Inr resolved"
    and t: "fst resolved = Some t"
    and f: "finish_row st teams category t (snd resolved) (snd nows) = Inr st'"
    by auto
  obtain our opp home where teams: "teams = (our, opp, home)" by (cases teams) auto
  from finish_row_cases [OF f [unfolded teams]] assms(2)
  obtain cal ttl e where "\<not> dt_less t (snd nows)"
    "route_venue (snd resolved) category = Some (cal, ttl)" "add_minutes t 50 = Inr e"
    "st' = st\<lparr>games := games st @
                 [\<lparr>title = ttl, start = t, end_dt = e, location = [],
                   notes_str = make_notes home our opp (snd resolved), calendar = cal,
                   our_team = our, opponent = opp, is_home = home\<rparr>]\<rparr>"
    by auto
  with m l c s r t teams show ?thesis by blast
qed


subsection \<open>The team filter\<close>

text \<open>
  Claim C2, as stated: a row whose two team names are both configured is discarded.
  The loop over the names stops at the first configured name, so such a row is kept,
  with the first name as \<open>our_team\<close>.
\<close>

theorem both_teams_configured_counterexample:
  "extract_team_names sample_row = [''Team A'', ''Team B'']
   \<and> ''Team A'' \<in> set [''Team A'', ''Team B''] \<and> ''Team B'' \<in> set [''Team A'', ''Team B'']
   \<and> process_row [''Team A'', ''Team B''] (today, run_time) empty_state sample_row
       = Inr \<lparr>games =
                [\<lparr>title = ''game Hockey'', start = sample_start, end_dt = sample_end,
                  location = [], notes_str = ''Team A @ Team B'' @ [CHR 0x0A] @ ''Arena'',
                  calendar = ''Dek St-Aug'', our_team = ''Team A'', opponent = ''Team B'',
                  is_home = False\<rparr>],
              current_date_str = None\<rparr>"
  by code_simp

text \<open>
  Claim C2, amended. For a row with two distinct extracted team names, the team filter
  keeps the row when at least one of the two names is configured: the first
  configured name in extraction order is \<open>our_team\<close>, the other name is \<open>opponent\<close>,
  and \<open>is_home\<close> tells that the second name was taken. When neither name is
  configured the row is discarded: no game is appended and nothing is raised.
\<close>

theorem team_filter_first_configured:
  "extract_team_names row = [a, b] \<Longrightarrow>
     match_team cfg (extract_team_names row) 0 (extract_team_names row) =
           Inr (if a \<in> set cfg then Some (a, b, False)
                else if b \<in> set cfg then Some (b, a, True) else None)
     \<and> (a \<notin> set cfg \<and> b \<notin> set cfg \<longrightarrow>
           (\<exists>st'. process_row cfg nows st row = Inr st' \<and> games st' = games st))"
proof -
  assume n: "extract_team_names row = [a, b]"
  have "match_team cfg (extract_team_names row) 0 (extract_team_names row) =
           Inr (if a \<in> set cfg then Some (a, b, False)
                else if b \<in> set cfg then Some (b, a, True) else None)"
    by (simp only: n match_team_pair)
  moreover have "a \<notin> set cfg \<and> b \<notin> set cfg \<longrightarrow>
           (\<exists>st'. process_row cfg nows st row = Inr st' \<and> games st' = games st)"
    using n
    by (auto simp: process_row_def process_game_row_def match_team_pair split: option.splits)
  ultimately show ?thesis by blast
qed

theorem team_filter_first_configured_witness:
  "extract_team_names sample_row = [''Team A'', ''Team B'']
   \<and> match_team [''Team B''] (extract_team_names sample_row) 0 (extract_team_names sample_row)
       = Inr (Some (''Team B'', ''Team A'', True))
   \<and> (\<exists>st'. process_row [''Team C''] (today, run_time) empty_state sample_row = Inr st'
          \<and> games st' = games empty_state)"
proof -
  have n: "extract_team_names sample_row = [''Team A'', ''Team B'']"
    by code_simp
  from team_filter_first_configured [OF n, of "[''Team B'']"]
  have "match_team [''Team B''] (extract_team_names sample_row) 0 (extract_team_names sample_row)
       = Inr (Some (''Team B'', ''Team A'', True))"
    by simp
  moreover from team_filter_first_configured [OF n, of "[''Team C'']" "(today, run_time)" empty_state]
  have "\<exists>st'. process_row [''Team C''] (today, run_time) empty_state sample_row = Inr st'
          \<and> games st' = games empty_state"
    by simp
  ultimately show ?thesis using n by blast
qed

text \<open>
  Claim C7. For a row with two distinct extracted team names of which exactly one is
  configured, the game that the row produces has the configured name as \<open>our_team\<close>,
  the other name as \<open>opponent\<close>, and \<open>is_home\<close> true exactly when the configured name
  is the second of the two.
\<close>

theorem matched_team_roles:
  assumes "extract_team_names row = [a, b]"
    and "(a \<in> set cfg) \<noteq> (b \<in> set cfg)"
    and "process_row cfg nows st row = Inr st'"
    and "games st' \<noteq> games st"
  shows "\<exists>g. games st' = games st @ [g]
           \<and> our_team g = (if a \<in> set cfg then a else b)
           \<and> opponent g = (if a \<in> set cfg then b else a)
           \<and> is_home g = (b \<in> set cfg)"
proof -
  from process_row_appended [OF assms(3,4)] obtain our opp home g where
    m: "match_team cfg (extract_team_names row) 0 (extract_team_names row)
          = Inr (Some (our, opp, home))"
    and g: "games st' = games st @ [g]" "our_team g = our" "opponent g = opp" "is_home g = home"
    by fastforce
  from m have "Inr (if a \<in> set cfg then Some (a, b, False)
          else if b \<in> set cfg then Some (b, a, True) else None)
       = (Inr (Some (our, opp, home)) :: py_error + (string \<times> string \<times> bool) option)"
    by (simp only: assms(1) match_team_pair)
  with assms(2) have "our = (if a \<in> set cfg then a else b)"
    "opp = (if a \<in> set cfg then b else a)" "home = (b \<in> set cfg)"
    by (auto split: if_splits)
  with g show ?thesis by auto
qed

theorem matched_team_roles_witness:
  "extract_team_names sample_row = [''Team A'', ''Team B'']
   \<and> (''Team A'' \<in> set [''Team B'']) \<noteq> (''Team B'' \<in> set [''Team B''])
   \<and> (\<exists>st'. process_row [''Team B''] (today, run_time) empty_state sample_row = Inr st'
        \<and> games st' \<noteq> games empty_state
        \<and> (\<exists>g. games st' = games empty_state @ [g]
             \<and> our_team g = ''Team B'' \<and> opponent g = ''Team A'' \<and> is_home g = True))"
proof -
  let ?st = "\<lparr>games =
                [\<lparr>title = ''game Hockey'', start = sample_start, end_dt = sample_end,
                  location = [], notes_str = ''Team A @ Team B'' @ [CHR 0x0A] @ ''Arena'',
                  calendar = ''Dek St-Aug'', our_team = ''Team B'', opponent = ''Team A'',
                  is_home = True\<rparr>],
              current_date_str = None\<rparr>"
  have n: "extract_team_names sample_row = [''Team A'', ''Team B'']"
    by code_simp
  have c: "(''Team A'' \<in> set [''Team B'']) \<noteq> (''Team B'' \<in> set [''Team B''])"
    by simp
  have p: "process_row [''Team B''] (today, run_time) empty_state sample_row = Inr ?st"
    by code_simp
  have d: "games ?st \<noteq> games empty_state"
    by (simp add: empty_state_def)
  from matched_team_roles [OF n c p d]
  have "\<exists>g. games ?st = games empty_state @ [g]
             \<and> our_team g = ''Team B'' \<and> opponent g = ''Team A'' \<and> is_home g = True"
    by simp
  with n c p d show ?thesis by blast
qed

subsection \<open>Venue routing\<close>

lemma py_in_iff: "py_in needle hay \<longleftrightarrow> (\<exists>pre post. hay = pre @ needle @ post)"
proof (induction hay)
  case Nil
  then show ?case by auto
next
  case (Cons c cs)
  show ?case
  proof
    assume "py_in needle (c # cs)"
    then consider "prefix needle (c # cs)" | "py_in needle cs" by auto
    then show "\<exists>pre post. c # cs = pre @ needle @ post"
    proof cases
      case 1
      then obtain post where "c # cs = [] @ needle @ post" by (auto simp: prefix_def)
      then show ?thesis by blast
    next
      case 2
      with Cons.IH obtain pre post where "cs = pre @ needle @ post" by blast
      then have "c # cs = (c # pre) @ needle @ post" by simp
      then show ?thesis by blast
    qed
  next
    assume "\<exists>pre post. c # cs = pre @ needle @ post"
    then obtain pre post where e: "c # cs = pre @ needle @ post" by blast
    show "py_in needle (c # cs)"
    proof (cases pre)
      case Nil
      with e have "prefix needle (c # cs)" by (simp add: prefix_def)
      then show ?thesis by simp
    next
      case (Cons p ps)
      with e have "cs = ps @ needle @ post" by simp
      with Cons.IH have "py_in needle cs" by blast
      then show ?thesis by simp
    qed
  qed
qed

lemma py_in_lower: "py_in (lower marker) (lower venue) \<longleftrightarrow> ci_contains marker venue"
proof
  assume "py_in (lower marker) (lower venue)"
  then obtain p q where e: "map lower_char venue = p @ (map lower_char marker @ q)"
    by (auto simp: py_in_iff lower_def)
  from e [unfolded map_eq_append_conv] obtain pre rest where v: "venue = pre @ rest"
    and r: "map lower_char marker @ q = map lower_char rest"
    by blast
  from r [symmetric, unfolded map_eq_append_conv] obtain w post where
    "rest = w @ post" "map lower_char marker = map lower_char w"
    by blast
  with v show "ci_contains marker venue"
    by (auto simp: ci_contains_def lower_def)
next
  assume "ci_contains marker venue"
  then obtain pre w post where "venue = pre @ w @ post" "lower w = lower marker"
    by (auto simp: ci_contains_def)
  then have "lower venue = lower pre @ lower marker @ lower post"
    by (simp add: lower_def)
  then show "py_in (lower marker) (lower venue)"
    by (auto simp: py_in_iff)
qed

lemma py_in_imp_lower: "py_in marker venue \<Longrightarrow> py_in (lower marker) (lower venue)"
proof -
  assume "py_in marker venue"
  then obtain pre post where "venue = pre @ marker @ post" by (auto simp: py_in_iff)
  then have "lower venue = lower pre @ lower marker @ lower post" by (simp add: lower_def)
  then show ?thesis by (auto simp: py_in_iff)
qed

lemma st_aug_test:
  "(py_in ''(St-Aug'' venue \<or> py_in ''(st-aug'' (lower venue)) = ci_contains ''(st-aug'' venue"
proof -
  have a: "lower ''(St-Aug'' = ''(st-aug''" by code_simp
  have b: "lower ''(st-aug'' = ''(st-aug''" by code_simp
  from py_in_imp_lower [of "''(St-Aug''" venue] a
  have "py_in ''(St-Aug'' venue \<Longrightarrow> py_in ''(st-aug'' (lower venue)" by simp
  moreover from py_in_lower [of "''(st-aug''" venue] b
  have "py_in ''(st-aug'' (lower venue) = ci_contains ''(st-aug'' venue" by simp
  ultimately show ?thesis by blast
qed

lemma chauveau_test:
  "(py_in ''(Chauveau'' venue \<or> py_in ''(chauveau'' (lower venue)) = ci_contains ''(chauveau'' venue"
proof -
  have a: "lower ''(Chauveau'' = ''(chauveau''" by code_simp
  have b: "lower ''(chauveau'' = ''(chauveau''" by code_simp
  from py_in_imp_lower [of "''(Chauveau''" venue] a
  have "py_in ''(Chauveau'' venue \<Longrightarrow> py_in ''(chauveau'' (lower venue)" by simp
  moreover from py_in_lower [of "''(chauveau''" venue] b
  have "py_in ''(chauveau'' (lower venue) = ci_contains ''(chauveau'' venue" by simp
  ultimately show ?thesis by blast
qed

lemma levis_test:
  "(py_in (''l'' @ [CHR 0xE9] @ ''vis'') (lower venue) \<or> py_in ''levis'' (lower venue))
     = (ci_contains (''l'' @ [CHR 0xE9] @ ''vis'') venue \<or> ci_contains ''levis'' venue)"
proof -
  have a: "lower (''l'' @ [CHR 0xE9] @ ''vis'') = ''l'' @ [CHR 0xE9] @ ''vis''" by code_simp
  have b: "lower ''levis'' = ''levis''" by code_simp
  from py_in_lower [of "''l'' @ [CHR 0xE9] @ ''vis''" venue] a
  have "py_in (''l'' @ [CHR 0xE9] @ ''vis'') (lower venue)
          = ci_contains (''l'' @ [CHR 0xE9] @ ''vis'') venue" by simp
  moreover from py_in_lower [of "''levis''" venue] b
  have "py_in ''levis'' (lower venue) = ci_contains ''levis'' venue" by simp
  ultimately show ?thesis by blast
qed

lemma route_centre_levis:
  "route_venue centre_levis category = Some (''Autre'', ''game '' @ category @ '' Levis'')"
proof -
  have "\<not> py_in ''(St-Aug'' centre_levis" "\<not> py_in ''(st-aug'' (lower centre_levis)"
    "\<not> py_in ''(Chauveau'' centre_levis" "\<not> py_in ''(chauveau'' (lower centre_levis)"
    "py_in (''l'' @ [CHR 0xE9] @ ''vis'') (lower centre_levis)"
    by code_simp+
  then show ?thesis unfolding route_venue_def by simp
qed

text \<open>
  Claim C6. The venue is routed by a substring test without regard to case, in this
  order: the marker \<open>(st-aug\<close> gives the calendar \<open>Dek St-Aug\<close> and the title \<open>game\<close>
  plus category; otherwise the marker \<open>(chauveau\<close> gives \<open>Dek Chauveau\<close> and the same
  title; otherwise the city name, with or without the accent, gives \<open>Autre\<close> and the
  title with \<open>Levis\<close> appended. The venue of the scenario, Centre L\<open>e\<close>vis with the
  accent, goes to \<open>Autre\<close>. A venue with none of the markers is discarded: the row
  appends no game.
\<close>

theorem venue_routing_priority:
  "route_venue venue category =
     (if ci_contains ''(st-aug'' venue then Some (''Dek St-Aug'', ''game '' @ category)
      else if ci_contains ''(chauveau'' venue then Some (''Dek Chauveau'', ''game '' @ category)
      else if ci_contains (''l'' @ [CHR 0xE9] @ ''vis'') venue \<or> ci_contains ''levis'' venue
      then Some (''Autre'', ''game '' @ category @ '' Levis'')
      else None)
   \<and> route_venue centre_levis category = Some (''Autre'', ''game '' @ category @ '' Levis'')
   \<and> (route_venue venue category = None \<longrightarrow>
        finish_row st teams category game_datetime venue now = Inr st)"
proof (intro conjI)
  show "route_venue venue category =
     (if ci_contains ''(st-aug'' venue then Some (''Dek St-Aug'', ''game '' @ category)
      else if ci_contains ''(chauveau'' venue then Some (''Dek Chauveau'', ''game '' @ category)
      else if ci_contains (''l'' @ [CHR 0xE9] @ ''vis'') venue \<or> ci_contains ''levis'' venue
      then Some (''Autre'', ''game '' @ category @ '' Levis'')
      else None)"
    unfolding route_venue_def st_aug_test chauveau_test levis_test by (rule refl)
  show "route_venue centre_levis category = Some (''Autre'', ''game '' @ category @ '' Levis'')"
    by (rule route_centre_levis)
  show "route_venue venue category = None \<longrightarrow>
        finish_row st teams category game_datetime venue now = Inr st"
    by (cases teams) (auto simp: finish_row_def)
qed

theorem venue_routing_priority_witness:
  "route_venue ''Arena Nord'' ''Hockey'' = None
   \<and> finish_row empty_state (''Team A'', ''Team B'', False) ''Hockey'' sample_start
        ''Arena Nord'' run_time = Inr empty_state
   \<and> route_venue centre_levis ''Hockey'' = Some (''Autre'', ''game Hockey Levis'')"
proof -
  have n: "route_venue ''Arena Nord'' ''Hockey'' = None"
    by code_simp
  note inst = venue_routing_priority [of "''Arena Nord''" "''Hockey''" empty_state
      "(''Team A'', ''Team B'', False)" sample_start run_time]
  from inst n have "finish_row empty_state (''Team A'', ''Team B'', False) ''Hockey'' sample_start
        ''Arena Nord'' run_time = Inr empty_state"
    by blast
  moreover from inst have "route_venue centre_levis ''Hockey'' = Some (''Autre'', ''game Hockey Levis'')"
    by simp
  ultimately show ?thesis using n by blast
qed

subsection \<open>A row in the absolute encoding\<close>

lemma date_of_cell_None:
  "date_of_cell c = None \<Longrightarrow> bs_find (with_class ''div'' ''game_date'') c = None"
  by (simp add: date_of_cell_def)

lemma date_of_cell_Some:
  "date_of_cell c = Some x \<Longrightarrow>
     \<exists>d. bs_find (with_class ''div'' ''game_date'') c = Some d \<and> get_text d = x"
  by (auto simp: date_of_cell_def)

lemma pair_date_skip:
  "list_all (\<lambda>c. date_of_cell c = None) pre \<Longrightarrow>
     pair_date (pre @ rest) time_text = pair_date rest time_text"
  by (induction pre) (auto dest: date_of_cell_None)

lemma pair_date_found:
  assumes "list_all (\<lambda>c. date_of_cell c = None) pre"
    and "date_of_cell date_cell = Some date_text"
    and "search_iso date_text = Some date_str"
  shows "pair_date (pre @ date_cell # rest) time_text = build_datetime date_str time_text"
proof -
  from date_of_cell_Some [OF assms(2)] obtain d where
    "bs_find (with_class ''div'' ''game_date'') date_cell = Some d" "get_text d = date_text"
    by blast
  with assms(3) have "pair_date (date_cell # rest) time_text = build_datetime date_str time_text"
    by simp
  with pair_date_skip [OF assms(1)] show ?thesis by simp
qed

lemma scan_tds_skip:
  "list_all (\<lambda>c. date_of_cell c = None) pre \<Longrightarrow>
     scan_tds td_elements (pre @ rest) = scan_tds td_elements rest"
  by (induction pre) (auto dest: date_of_cell_None)

lemma scan_tds_absolute:
  assumes "list_all (\<lambda>c. date_of_cell c = None) pre"
    and "date_of_cell date_cell = Some date_text"
    and "search_iso date_text \<noteq> None"
    and "date_of_cell time_cell = Some time_text"
    and "search_iso time_text = None"
    and "match_time_cell time_text"
    and "venue_of_cell time_cell = Some venue_text"
  shows "scan_tds td_elements (pre @ [date_cell, time_cell] @ post)
           = then_do (pair_date td_elements time_text) (\<lambda>found. Inr (found, venue_text))"
proof -
  from date_of_cell_Some [OF assms(2)] obtain d where
    d: "bs_find (with_class ''div'' ''game_date'') date_cell = Some d" "get_text d = date_text"
    by blast
  from date_of_cell_Some [OF assms(4)] obtain t where
    t: "bs_find (with_class ''div'' ''game_date'') time_cell = Some t" "get_text t = time_text"
    by blast
  from assms(7) obtain v where
    v: "bs_find (with_class ''div'' ''game_venue'') time_cell = Some v" "get_text v = venue_text"
    by (auto simp: venue_of_cell_def)
  have "scan_tds td_elements (pre @ [date_cell, time_cell] @ post)
      = scan_tds td_elements (date_cell # time_cell # post)"
    using scan_tds_skip [OF assms(1)] by simp
  also have "\<dots> = scan_tds td_elements (time_cell # post)"
    using d assms(3) by simp
  also have "\<dots> = then_do (pair_date td_elements time_text) (\<lambda>found. Inr (found, venue_text))"
    using t v assms(5,6) by (simp add: then_do_def split: sum.splits)
  finally show ?thesis .
qed

lemma relative_date_found:
  "relative_date now header row (Some t, venue) = Inr (Some t, venue)"
  by (simp add: relative_date_def split: option.splits)

lemma sample_row_cells:
  "absolute_cells sample_row ''2024-12-15'' ''18:00'' ''Arena (St-Aug)''"
proof -
  have a: "bs_find_all (named ''td'') sample_row =
    [Tag ''td'' [] None
          [Tag ''div'' [''cat_name''] None [Tag ''span'' [] None [Text ''Hockey A'']]],
        Tag ''td'' [] None
          [Tag ''a'' [] (Some ''/equipes/1'') [Text ''Team A''],
           Tag ''a'' [] (Some ''/equipes/2'') [Text ''Team B'']]] @
       [Tag ''td'' [] None [Tag ''div'' [''game_date''] None [Text ''2024-12-15'']],
        Tag ''td'' [] None
          [Tag ''div'' [''game_date''] None [Text ''18:00''],
           Tag ''div'' [''game_venue''] None [Text ''Arena (St-Aug)'']]] @ []"
    by code_simp
  have b: "list_all (\<lambda>c. date_of_cell c = None) [Tag ''td'' [] None
          [Tag ''div'' [''cat_name''] None [Tag ''span'' [] None [Text ''Hockey A'']]],
        Tag ''td'' [] None
          [Tag ''a'' [] (Some ''/equipes/1'') [Text ''Team A''],
           Tag ''a'' [] (Some ''/equipes/2'') [Text ''Team B'']]]"
    by code_simp
  have c: "date_of_cell (Tag ''td'' [] None [Tag ''div'' [''game_date''] None [Text ''2024-12-15'']]) = Some ''2024-12-15''"
    by code_simp
  have d: "date_of_cell (Tag ''td'' [] None
          [Tag ''div'' [''game_date''] None [Text ''18:00''],
           Tag ''div'' [''game_venue''] None [Text ''Arena (St-Aug)'']]) = Some ''18:00''"
    by code_simp
  have e: "venue_of_cell (Tag ''td'' [] None
          [Tag ''div'' [''game_date''] None [Text ''18:00''],
           Tag ''div'' [''game_venue''] None [Text ''Arena (St-Aug)'']]) = Some ''Arena (St-Aug)''"
    by code_simp
  show ?thesis unfolding absolute_cells_def using a b c d e by blast
qed

text \<open>
  Claim C3. A game row whose cells give the date 2024-12-15 and the time 18:00, whose
  extracted teams are Team A and Team B with Team A configured, whose category is
  Hockey and whose venue reads Arena (St-Aug), appends exactly one game when the
  clock is not past the start: start 2024-12-15 18:00, end 18:50, calendar
  \<open>Dek St-Aug\<close>, title \<open>game Hockey\<close>, \<open>is_home\<close> false, and the notes
  \<open>Team A @ Team B\<close>, a line feed, and \<open>Arena\<close>.
\<close>

theorem absolute_row_scenario:
  assumes "bs_find (named ''h2'') row = None"
    and "''schedule_container'' \<in> set (classes row)"
    and "extract_team_names row = [''Team A'', ''Team B'']"
    and "''Team A'' \<in> set cfg"
    and "extract_category row = Inr ''Hockey''"
    and "absolute_cells row ''2024-12-15'' ''18:00'' ''Arena (St-Aug)''"
    and "\<not> dt_less sample_start now_filter"
  shows "process_row cfg (now_parse, now_filter) st row =
           Inr (st\<lparr>games := games st @
                  [\<lparr>title = ''game Hockey'', start = sample_start, end_dt = sample_end,
                    location = [], notes_str = ''Team A @ Team B'' @ [CHR 0x0A] @ ''Arena'',
                    calendar = ''Dek St-Aug'', our_team = ''Team A'', opponent = ''Team B'',
                    is_home = False\<rparr>]\<rparr>)"
proof -
  let ?tds = "bs_find_all (named ''td'') row"
  from assms(6) obtain pre date_cell time_cell post where
    tds: "?tds = pre @ [date_cell, time_cell] @ post"
    and pre: "list_all (\<lambda>c. date_of_cell c = None) pre"
    and dc: "date_of_cell date_cell = Some ''2024-12-15''"
    and tc: "date_of_cell time_cell = Some ''18:00''"
    and vc: "venue_of_cell time_cell = Some ''Arena (St-Aug)''"
    by (auto simp: absolute_cells_def)
  have iso: "search_iso ''2024-12-15'' = Some ''2024-12-15''" by code_simp
  have iso_ne: "search_iso ''2024-12-15'' \<noteq> None" using iso by simp
  have niso: "search_iso ''18:00'' = None" by code_simp
  have tm: "match_time_cell ''18:00''" by code_simp
  have bd: "build_datetime ''2024-12-15'' ''18:00'' = Inr (Some sample_start)" by code_simp
  have pd: "pair_date ?tds ''18:00'' = Inr (Some sample_start)"
    using pair_date_found [OF pre dc iso, of "time_cell # post" "''18:00''"] tds bd by simp
  have scan: "scan_tds ?tds ?tds = Inr (Some sample_start, ''Arena (St-Aug)'')"
    using scan_tds_absolute [OF pre dc iso_ne tc niso tm vc, of ?tds post] tds pd by simp
  have links: "\<not> length (bs_find_all team_link row) < 2"
    using length_extract_team_names [of row] assms(3) by simp
  have m: "match_team cfg [''Team A'', ''Team B''] 0 [''Team A'', ''Team B'']
             = Inr (Some (''Team A'', ''Team B'', False))"
    using assms(4) by (simp only: match_team_pair if_True)
  have route: "route_venue ''Arena (St-Aug)'' ''Hockey'' = Some (''Dek St-Aug'', ''game Hockey'')"
    by code_simp
  have fin: "add_minutes sample_start 50 = Inr sample_end" by code_simp
  have nt: "make_notes False ''Team A'' ''Team B'' ''Arena (St-Aug)''
              = ''Team A @ Team B'' @ [CHR 0x0A] @ ''Arena''" by code_simp
  have f: "finish_row st (''Team A'', ''Team B'', False) ''Hockey'' sample_start
             ''Arena (St-Aug)'' now_filter
         = Inr (st\<lparr>games := games st @
                  [\<lparr>title = ''game Hockey'', start = sample_start, end_dt = sample_end,
                    location = [], notes_str = ''Team A @ Team B'' @ [CHR 0x0A] @ ''Arena'',
                    calendar = ''Dek St-Aug'', our_team = ''Team A'', opponent = ''Team B'',
                    is_home = False\<rparr>]\<rparr>)"
    unfolding finish_row_def using assms(7) route fin nt by simp
  have "process_game_row cfg (now_parse, now_filter) st row
      = finish_row st (''Team A'', ''Team B'', False) ''Hockey'' sample_start
             ''Arena (St-Aug)'' now_filter"
    unfolding process_game_row_def Let_def
    by (simp only: assms(3) m assms(5) scan relative_date_found then_do_Inr fst_conv snd_conv
          option.case list.size length_Cons) simp
  with f assms(1,2) links show ?thesis
    by (simp add: process_row_def)
qed

theorem absolute_row_scenario_witness:
  "bs_find (named ''h2'') sample_row = None
   \<and> ''schedule_container'' \<in> set (classes sample_row)
   \<and> extract_team_names sample_row = [''Team A'', ''Team B'']
   \<and> ''Team A'' \<in> set [''Team A'']
   \<and> extract_category sample_row = Inr ''Hockey''
   \<and> absolute_cells sample_row ''2024-12-15'' ''18:00'' ''Arena (St-Aug)''
   \<and> \<not> dt_less sample_start run_time
   \<and> process_row [''Team A''] (today, run_time) empty_state sample_row =
           Inr (empty_state\<lparr>games := games empty_state @
                  [\<lparr>title = ''game Hockey'', start = sample_start, end_dt = sample_end,
                    location = [], notes_str = ''Team A @ Team B'' @ [CHR 0x0A] @ ''Arena'',
                    calendar = ''Dek St-Aug'', our_team = ''Team A'', opponent = ''Team B'',
                    is_home = False\<rparr>]\<rparr>)"
proof -
  have h1: "bs_find (named ''h2'') sample_row = None" by code_simp
  have h2: "''schedule_container'' \<in> set (classes sample_row)" by code_simp
  have h3: "extract_team_names sample_row = [''Team A'', ''Team B'']" by code_simp
  have h4: "''Team A'' \<in> set [''Team A'']" by simp
  have h5: "extract_category sample_row = Inr ''Hockey''" by code_simp
  note h6 = sample_row_cells
  have h7: "\<not> dt_less sample_start run_time" by code_simp
  from absolute_row_scenario [OF h1 h2 h3 h4 h5 h6 h7, of today empty_state]
    h1 h2 h3 h4 h5 h6 h7
  show ?thesis by blast
qed

section \<open>The invariant of the appended games\<close>

lemma div_step:
  assumes "(k::int) > 0"
  shows "y div k = (y - 1) div k + (if y mod k = 0 then 1 else 0)"
proof (cases "y mod k = 0")
  case True
  define q where "q = y div k"
  have "y = k * q + y mod k" by (simp add: q_def)
  with True have "y - 1 = k * (q - 1) + (k - 1)" by (simp add: algebra_simps)
  then have "(y - 1) div k = q - 1"
    by (rule int_div_pos_eq) (use assms in simp_all)
  with True show ?thesis by (simp add: q_def)
next
  case False
  define q where "q = y div k"
  have "0 \<le> y mod k" "y mod k < k" using assms by simp_all
  with False have r: "0 \<le> y mod k - 1" "y mod k - 1 < k" by simp_all
  have "y = k * q + y mod k" by (simp add: q_def)
  then have "y - 1 = k * q + (y mod k - 1)" by simp
  then have "(y - 1) div k = q"
    using r by (rule int_div_pos_eq)
  with False show ?thesis by (simp add: q_def)
qed

lemma mod_400_100: "(y::int) mod 400 = 0 \<Longrightarrow> y mod 100 = 0"
proof -
  assume a: "y mod 400 = 0"
  have "y mod 400 mod 100 = y mod 100" by (rule mod_mod_cancel) simp
  with a show ?thesis by simp
qed

lemma mod_100_4: "(y::int) mod 100 = 0 \<Longrightarrow> y mod 4 = 0"
proof -
  assume a: "y mod 100 = 0"
  have "y mod 100 mod 4 = y mod 4" by (rule mod_mod_cancel) simp
  with a show ?thesis by simp
qed

lemma days_before_year_Suc:
  "days_before_year (y + 1) = days_before_year y + (if is_leap y then 366 else 365)"
proof -
  define p4 where "p4 \<longleftrightarrow> y mod 4 = 0"
  define p100 where "p100 \<longleftrightarrow> y mod 100 = 0"
  define p400 where "p400 \<longleftrightarrow> y mod 400 = 0"
  define d4 where "d4 = (y - 1) div 4"
  define d100 where "d100 = (y - 1) div 100"
  define d400 where "d400 = (y - 1) div 400"
  have a: "y div 4 = d4 + (if p4 then 1 else 0)"
    unfolding p4_def d4_def by (rule div_step) simp
  have b: "y div 100 = d100 + (if p100 then 1 else 0)"
    unfolding p100_def d100_def by (rule div_step) simp
  have c: "y div 400 = d400 + (if p400 then 1 else 0)"
    unfolding p400_def d400_def by (rule div_step) simp
  have i1: "p400 \<Longrightarrow> p100" unfolding p400_def p100_def by (rule mod_400_100)
  have i2: "p100 \<Longrightarrow> p4" unfolding p100_def p4_def by (rule mod_100_4)
  have leap: "is_leap y \<longleftrightarrow> p4 \<and> (\<not> p100 \<or> p400)"
    by (simp only: is_leap_def p4_def p100_def p400_def)
  have old: "days_before_year y = 365 * (y - 1) + d4 - d100 + d400"
    by (simp only: days_before_year_def d4_def d100_def d400_def)
  have "days_before_year (y + 1) = 365 * y + y div 4 - y div 100 + y div 400"
    by (simp add: days_before_year_def)
  also have "\<dots> = 365 * y + (d4 + (if p4 then 1 else 0)) - (d100 + (if p100 then 1 else 0))
       + (d400 + (if p400 then 1 else 0))"
    by (simp only: a b c)
  also have "\<dots> = days_before_year y + (if is_leap y then 366 else 365)"
    using i1 i2 unfolding leap old by (cases p4; cases p100; cases p400) simp_all
  finally show ?thesis .
qed

lemma upto_11: "[1..11::int] = [1, 2, 3, 4, 5, 6, 7, 8, 9, 10, 11]"
  by code_simp

lemma days_in_year:
  "days_before_month y 12 + 31 = (if is_leap y then 366 else 365)"
  by (simp add: days_before_month_def upto_11 days_in_month_def)


lemma days_before_month_Suc:
  "1 \<le> m \<Longrightarrow> days_before_month y (m + 1) = days_before_month y m + days_in_month y m"
  by (simp add: days_before_month_def upto_rec2)

lemma days_before_month_1: "days_before_month y 1 = 0"
  by (simp add: days_before_month_def)

lemma days_in_month_ge: "28 \<le> days_in_month y m"
  by (simp add: days_in_month_def)

lemma next_day_step:
  assumes "valid_date ymd"
  shows "valid_date (next_day ymd) \<and> ordinal (next_day ymd) = ordinal ymd + 1"
proof -
  obtain y m d where ymd: "ymd = (y, m, d)" by (cases ymd) auto
  from assms ymd have v: "1 \<le> m" "m \<le> 12" "1 \<le> d" "d \<le> days_in_month y m"
    by (auto simp: valid_date_def)
  show ?thesis
  proof (cases "d < days_in_month y m")
    case True
    with v ymd show ?thesis by (simp add: next_day_def valid_date_def ordinal_def)
  next
    case False
    with v have d: "d = days_in_month y m" by simp
    show ?thesis
    proof (cases "m < 12")
      case True
      with v ymd d days_in_month_ge [of y "m + 1"] days_before_month_Suc [of m y]
      show ?thesis by (simp add: next_day_def valid_date_def ordinal_def)
    next
      case False
      with v have m: "m = 12" by simp
      have "days_in_month y 12 = 31" by (simp add: days_in_month_def)
      with m d ymd days_in_year [of y] days_before_year_Suc [of y] days_in_month_ge [of "y + 1" 1]
      show ?thesis
        by (simp add: next_day_def valid_date_def ordinal_def days_before_month_1)
    qed
  qed
qed

lemma next_days:
  "valid_date ymd \<Longrightarrow>
     valid_date ((next_day ^^ k) ymd) \<and> ordinal ((next_day ^^ k) ymd) = ordinal ymd + int k"
  by (induction k) (auto dest: next_day_step)

lemma add_minutes_exact:
  assumes "valid_date (year t, month t, day t)" and "0 \<le> hour t" and "0 \<le> minute t"
    and "add_minutes t n = Inr e"
  shows "dt_minutes e = dt_minutes t + int n \<and> second e = second t
           \<and> microsecond e = microsecond t"
proof -
  define total where "total = minute t + int n"
  define hours where "hours = hour t + total div 60"
  define k where "k = hours div 24"
  define ymd where "ymd = (next_day ^^ nat k) (year t, month t, day t)"
  obtain y m d where s: "ymd = (y, m, d)" by (cases ymd) auto
  from assms(4) s have e: "e = t\<lparr>year := y, month := m, day := d,
                       hour := hours mod 24, minute := total mod 60\<rparr>"
    by (auto simp: add_minutes_def Let_def total_def hours_def ymd_def k_def split: if_splits)
  have "0 \<le> total" using assms(3) by (simp add: total_def)
  then have "0 \<le> total div 60" by (simp add: pos_imp_zdiv_nonneg_iff)
  with assms(2) have "0 \<le> hours" by (simp add: hours_def)
  then have k0: "0 \<le> k" by (simp add: k_def pos_imp_zdiv_nonneg_iff)
  from next_days [OF assms(1), of "nat k"] k0
  have ord: "ordinal (y, m, d) = ordinal (year t, month t, day t) + k"
    by (simp add: ymd_def [symmetric] s)
  have h: "hours = 24 * k + hours mod 24" by (simp add: k_def)
  have tt: "total = 60 * (total div 60) + total mod 60" by simp
  define hm where "hm = hours mod 24"
  define tm where "tm = total mod 60"
  define td where "td = total div 60"
  define o0 where "o0 = ordinal (year t, month t, day t)"
  have "dt_minutes e = ((o0 + k) * 24 + hm) * 60 + tm"
    by (simp add: dt_minutes_def e ord hm_def tm_def o0_def)
  also have "\<dots> = (o0 * 24 + hours) * 60 + tm"
    using h by (simp add: hm_def algebra_simps)
  also have "\<dots> = (o0 * 24 + hour t) * 60 + (60 * td + tm)"
    by (simp add: hours_def td_def algebra_simps)
  also have "60 * td + tm = total"
    using tt by (simp add: td_def tm_def)
  finally have "dt_minutes e = dt_minutes t + int n"
    by (simp add: dt_minutes_def o0_def total_def)
  with e show ?thesis by simp
qed


lemma build_datetime_constructed:
  assumes "build_datetime date_str time_str = Inr (Some t)"
  shows "\<exists>y m d hh mm. datetime_new y m d hh mm = Inr t"
proof -
  from assms have "build_datetime_try date_str time_str = Inr (Some t)"
    by (auto simp: build_datetime_def split: sum.splits py_error.splits)
  then show ?thesis
    unfolding build_datetime_try_def Let_def
    by (auto simp: then_do_eq_Inr split: option.splits prod.splits) blast
qed

lemma pair_date_constructed:
  "pair_date tds time_str = Inr (Some t) \<Longrightarrow> \<exists>y m d hh mm. datetime_new y m d hh mm = Inr t"
  by (induction tds) (auto split: option.splits dest: build_datetime_constructed)

lemma scan_tds_constructed:
  "scan_tds td_elements tds = Inr (Some t, v) \<Longrightarrow>
     \<exists>y m d hh mm. datetime_new y m d hh mm = Inr t"
proof (induction tds)
  case Nil
  then show ?case by simp
next
  case (Cons td tds)
  show ?case
  proof (cases "bs_find (with_class ''div'' ''game_date'') td")
    case None
    with Cons show ?thesis by simp
  next
    case (Some date_div)
    show ?thesis
    proof (cases "search_iso (get_text date_div) \<noteq> None \<or> \<not> match_time_cell (get_text date_div)")
      case True
      with Some Cons show ?thesis by (auto simp: Let_def split: if_splits)
    next
      case False
      with Some Cons.prems have "pair_date td_elements (get_text date_div) = Inr (Some t)"
        by (auto simp: Let_def split: sum.splits)
      then show ?thesis by (rule pair_date_constructed)
    qed
  qed
qed

lemma relative_date_constructed:
  assumes "relative_date now header row found = Inr resolved"
    and "fst resolved = Some t"
    and "\<And>t'. fst found = Some t' \<Longrightarrow> \<exists>y m d hh mm. datetime_new y m d hh mm = Inr t'"
  shows "\<exists>y m d hh mm. datetime_new y m d hh mm = Inr t"
proof -
  obtain gd venue where f: "found = (gd, venue)" by (cases found) auto
  show ?thesis
  proof (cases "\<exists>date_str. header = Some date_str \<and> gd = None \<and> date_str \<noteq> []")
    case False
    with assms(1) f have "resolved = found"
      by (auto simp: relative_date_def split: option.splits if_splits)
    with assms(2,3) show ?thesis by simp
  next
    case True
    then obtain date_str where h: "header = Some date_str" "gd = None" "date_str \<noteq> []" by blast
    with assms(1,2) f obtain game_date_div where
      "parse_french_date now date_str (get_text game_date_div) None = Inr (Some t)"
      by (auto simp: relative_date_def split: option.splits sum.splits)
    from parse_french_date_Some [OF this] show ?thesis by blast
  qed
qed

lemma constructed_valid:
  assumes "datetime_new y m d hh mm = Inr t"
  shows "valid_date (year t, month t, day t) \<and> 0 \<le> hour t \<and> 0 \<le> minute t"
  using datetime_new_fields [OF assms] datetime_new_valid [OF assms]
  by (simp add: valid_date_def)

lemma route_venue_bucket: "route_venue venue category = Some (cal, ttl) \<Longrightarrow> cal \<in> set buckets"
  by (auto simp: route_venue_def buckets_def split: if_splits)

lemma process_row_invariant:
  assumes "process_row cfg nows st row = Inr st'"
  shows "games st' = games st \<or>
     (\<exists>g. games st' = games st @ [g] \<and> game_invariant g \<and> \<not> dt_less (start g) (snd nows))"
proof (cases "games st' = games st")
  case True
  then show ?thesis by simp
next
  case False
  from process_row_appended [OF assms False] obtain our opp home category found resolved t cal ttl e
    where s: "scan_tds (bs_find_all (named ''td'') row) (bs_find_all (named ''td'') row) = Inr found"
      and r: "relative_date (fst nows) (current_date_str st) row found = Inr resolved"
      and t: "fst resolved = Some t"
      and nl: "\<not> dt_less t (snd nows)"
      and rv: "route_venue (snd resolved) category = Some (cal, ttl)"
      and am: "add_minutes t 50 = Inr e"
      and st': "st' = st\<lparr>games := games st @
                 [\<lparr>title = ttl, start = t, end_dt = e, location = [],
                   notes_str = make_notes home our opp (snd resolved), calendar = cal,
                   our_team = our, opponent = opp, is_home = home\<rparr>]\<rparr>"
    by blast
  have "\<And>t'. fst found = Some t' \<Longrightarrow> \<exists>y m d hh mm. datetime_new y m d hh mm = Inr t'"
    using s scan_tds_constructed by (cases found) auto
  from relative_date_constructed [OF r t this]
  obtain y m d hh mm where "datetime_new y m d hh mm = Inr t" by blast
  from constructed_valid [OF this]
  have v: "valid_date (year t, month t, day t)" "0 \<le> hour t" "0 \<le> minute t" by simp_all
  from add_minutes_exact [OF v am]
  have "dt_minutes e = dt_minutes t + 50" "second e = second t" "microsecond e = microsecond t"
    by simp_all
  with am route_venue_bucket [OF rv] nl st' show ?thesis
    by (simp add: game_invariant_def)
qed

text \<open>
  Claim C10. Every game that the row loop appends ends exactly fifty minutes after it
  starts, has one of the three calendar names, and does not start before the clock
  reading that the filter on past games of its row took. The first part of the
  statement is about one row (so it covers the games appended before an exception
  ends the loop), the second about the whole loop.
\<close>

theorem appended_games_invariant:
  "(process_row cfg nows st row = Inr st' \<longrightarrow>
      games st' = games st \<or>
      (\<exists>g. games st' = games st @ [g] \<and> game_invariant g \<and> \<not> dt_less (start g) (snd nows)))
   \<and> (process_rows cfg st rows = Inr st'' \<longrightarrow> g \<in> set (games st'') \<longrightarrow>
        g \<in> set (games st) \<or>
        (game_invariant g \<and> (\<exists>nows' row'. (nows', row') \<in> set rows \<and> \<not> dt_less (start g) (snd nows'))))"
proof (intro conjI impI)
  assume "process_row cfg nows st row = Inr st'"
  then show "games st' = games st \<or>
      (\<exists>g. games st' = games st @ [g] \<and> game_invariant g \<and> \<not> dt_less (start g) (snd nows))"
    by (rule process_row_invariant)
next
  assume "process_rows cfg st rows = Inr st''" and "g \<in> set (games st'')"
  then show "g \<in> set (games st) \<or>
        (game_invariant g \<and> (\<exists>nows' row'. (nows', row') \<in> set rows \<and> \<not> dt_less (start g) (snd nows')))"
  proof (induction rows arbitrary: st)
    case Nil
    then show ?case by simp
  next
    case (Cons nr rows)
    obtain nows1 row1 where nr: "nr = (nows1, row1)" by (cases nr) auto
    from Cons.prems(1) nr obtain st1 where p: "process_row cfg nows1 st row1 = Inr st1"
      and rest: "process_rows cfg st1 rows = Inr st''"
      by (auto split: sum.splits)
    from Cons.IH [OF rest Cons.prems(2)]
    consider "g \<in> set (games st1)"
      | "game_invariant g \<and> (\<exists>nows' row'. (nows', row') \<in> set rows \<and> \<not> dt_less (start g) (snd nows'))"
      by blast
    then show ?case
    proof cases
      case 1
      have here: "(nows1, row1) \<in> set (nr # rows)" using nr by simp
      from process_row_invariant [OF p]
      consider "games st1 = games st"
        | g' where "games st1 = games st @ [g']" "game_invariant g'"
            "\<not> dt_less (start g') (snd nows1)"
        by blast
      then show ?thesis
      proof cases
        case 1
        with \<open>g \<in> set (games st1)\<close> show ?thesis by simp
      next
        case 2
        with \<open>g \<in> set (games st1)\<close> have "g \<in> set (games st) \<or> g = g'" by auto
        with 2 here show ?thesis by blast
      qed
    next
      case 2
      then show ?thesis by auto
    qed
  qed
qed

theorem appended_games_invariant_witness:
  "process_row [''Team A''] (today, run_time) empty_state sample_row
     = Inr (empty_state\<lparr>games := [sample_game]\<rparr>)
   \<and> process_rows [''Team A''] empty_state [((today, run_time), sample_row)]
     = Inr (empty_state\<lparr>games := [sample_game]\<rparr>)
   \<and> sample_game \<in> set (games (empty_state\<lparr>games := [sample_game]\<rparr>))
   \<and> game_invariant sample_game
   \<and> \<not> dt_less (start sample_game) run_time"
proof -
  let ?st = "empty_state\<lparr>games := [sample_game]\<rparr>"
  have p1: "process_row [''Team A''] (today, run_time) empty_state sample_row = Inr ?st"
    by code_simp
  have p2: "process_rows [''Team A''] empty_state [((today, run_time), sample_row)] = Inr ?st"
    by code_simp
  have m: "sample_game \<in> set (games ?st)" by simp
  have e: "sample_game \<notin> set (games empty_state)" "games ?st \<noteq> games empty_state"
    by (simp_all add: empty_state_def)
  note inst = appended_games_invariant [of "[''Team A'']" "(today, run_time)" empty_state
      sample_row ?st "[((today, run_time), sample_row)]" ?st sample_game]
  from inst p1 e(2) obtain g where "games ?st = games empty_state @ [g]"
    "game_invariant g" "\<not> dt_less (start g) (snd (today, run_time))"
    by blast
  then have "\<not> dt_less (start sample_game) run_time"
    by (simp add: empty_state_def)
  moreover from inst p2 m e(1) have "game_invariant sample_game" by blast
  ultimately show ?thesis using p1 p2 m by blast
qed

section \<open>The fetch without a frame\<close>

text \<open>
  Claim C8: when no frame element appears on the page within the wait, the fetch
  returns an empty list and raises nothing. The wait itself,
  \<open>page.wait_for_selector("iframe", timeout=10000)\<close>, stands outside any \<open>try\<close> and
  raises on the timeout, so the branch \<open>if not iframe_element\<close> behind it, which
  returns \<open>self.games\<close>, is not reached.
\<close>

theorem fetch_without_frame_raises:
  "fetch_games [''Team A''] no_frame_page [] = Inl TimeoutError"
  by code_simp

section \<open>Properties of the calendar writer\<close>

lemma ok_append [simp]:
  "applescript_text_ok (a @ b) \<longleftrightarrow> applescript_text_ok a \<and> applescript_text_ok b"
  by (auto simp: applescript_text_ok_def)

lemma ok_Cons [simp]:
  "applescript_text_ok (c # s) \<longleftrightarrow> c \<noteq> CHR 0x22 \<and> c \<noteq> CHR 0x5C \<and> applescript_text_ok s"
  by (auto simp: applescript_text_ok_def)

lemma ok_Nil [simp]: "applescript_text_ok []"
  by (simp add: applescript_text_ok_def)

lemma ok_digit: "applescript_text_ok [digit_char k]"
proof -
  have "nat (k mod 10) < 10" by simp
  then have "digit_char k \<in> set ''0123456789''"
    unfolding digit_char_def by (intro nth_mem) simp
  then show ?thesis by (auto simp del: ok_Cons simp: applescript_text_ok_def)
qed

lemma ok_decimal: "applescript_text_ok (decimal n)"
proof (induction n rule: decimal.induct)
  case (1 n)
  with ok_digit [of n] show ?case
    by (subst decimal.simps) auto
qed

lemma ok_pad2: "applescript_text_ok (pad2 n)"
  using ok_decimal [of n] by (simp add: pad2_def)

lemma ok_strftime: "applescript_text_ok (strftime t)"
  unfolding strftime_def by (simp add: ok_pad2 ok_decimal)

lemma nul_append [simp]: "has_nul (a @ b) \<longleftrightarrow> has_nul a \<or> has_nul b"
  by (auto simp: has_nul_def)

lemma nul_Cons [simp]: "has_nul (c # s) \<longleftrightarrow> c = CHR 0x00 \<or> has_nul s"
  by (auto simp: has_nul_def)

lemma nul_Nil [simp]: "\<not> has_nul []"
  by (simp add: has_nul_def)

lemma nul_digit: "\<not> has_nul [digit_char k]"
proof -
  have "nat (k mod 10) < 10" by simp
  then have "digit_char k \<in> set ''0123456789''"
    unfolding digit_char_def by (intro nth_mem) simp
  then show ?thesis by (auto simp del: nul_Cons simp: has_nul_def)
qed

lemma nul_decimal: "\<not> has_nul (decimal n)"
proof (induction n rule: decimal.induct)
  case (1 n)
  with nul_digit [of n] show ?case
    by (subst decimal.simps) auto
qed

lemma nul_pad2: "\<not> has_nul (pad2 n)"
  using nul_decimal [of n] by (simp add: pad2_def)

lemma nul_strftime: "\<not> has_nul (strftime t)"
  unfolding strftime_def by (simp add: nul_pad2 nul_decimal)

lemma check_script_safe:
  assumes "script_safe g" and "cs (calendar g) = Some evs"
  shows "check_script norm cs (calendar g) (strftime (start g)) (title g)
           = Inr (snd (game_key norm g) \<in> set (map (event_key norm) evs))"
proof -
  have "list_ex (\<lambda>evt. start_date evt = strftime (start g) \<and> norm (summary evt) = norm (title g)) evs
      \<longleftrightarrow> snd (game_key norm g) \<in> set (map (event_key norm) evs)"
    by (force simp: list_ex_iff game_key_def event_key_def)
  with assms show ?thesis
    by (simp add: check_script_def script_safe_def ok_strftime nul_strftime)
qed

lemma add_script_safe:
  assumes "script_safe g" and "cs (calendar g) = Some evs"
  shows "add_script cs (calendar g) (event_of_game g)
           = Inr (cs(calendar g \<mapsto> evs @ [event_of_game g]))"
  using assms
  by (simp add: add_script_def script_safe_def event_of_game_def ok_strftime nul_strftime)

lemma add_game_safe:
  assumes "script_safe g" and "store w (calendar g) = Some evs"
  shows "add_game norm w g =
     Inr (if snd (game_key norm g) \<in> set (map (event_key norm) evs)
          then w\<lparr>skipped_count := skipped_count w + 1\<rparr>
          else w\<lparr>store := (store w)(calendar g \<mapsto> evs @ [event_of_game g]),
                 added_count := added_count w + 1\<rparr>)"
  unfolding add_game_def try_add_def check_script_safe [where cs = "store w", OF assms]
    add_script_safe [where cs = "store w", OF assms]
  by simp

lemma event_key_of_game: "event_key norm (event_of_game g) = snd (game_key norm g)"
  by (simp add: event_key_def event_of_game_def game_key_def)

lemma game_key_split: "game_key norm g = (calendar g, snd (game_key norm g))"
  by (simp add: game_key_def)

lemma keys_snoc:
  "{snd (game_key norm h) | h. h \<in> set (ps @ [g]) \<and> calendar h = c}
     = (if calendar g = c
        then insert (snd (game_key norm g)) {snd (game_key norm h) | h. h \<in> set ps \<and> calendar h = c}
        else {snd (game_key norm h) | h. h \<in> set ps \<and> calendar h = c})"
  by auto

lemma add_game_inv:
  assumes inv: "writer_inv norm bs w ps" and safe: "script_safe g" and b: "calendar g \<in> bs"
  shows "\<exists>w'. add_game norm w g = Inr w' \<and> writer_inv norm bs w' (ps @ [g])"
proof -
  from inv b obtain evs where evs: "store w (calendar g) = Some evs"
    and dist: "distinct (map (event_key norm) evs)"
    and keys: "set (map (event_key norm) evs)
                 = {snd (game_key norm h) | h. h \<in> set ps \<and> calendar h = calendar g}"
    by (auto simp: writer_inv_def)
  from inv have added: "added_count w = card (game_key norm ` set ps)"
    and total: "skipped_count w + added_count w = length ps"
    by (auto simp: writer_inv_def)
  have known: "snd (game_key norm g) \<in> set (map (event_key norm) evs) \<longleftrightarrow> game_key norm g \<in> game_key norm ` set ps"
  proof
    assume "snd (game_key norm g) \<in> set (map (event_key norm) evs)"
    with keys obtain h where "h \<in> set ps" "calendar h = calendar g"
      "snd (game_key norm h) = snd (game_key norm g)" by auto
    then have "game_key norm h = game_key norm g" by (simp add: game_key_def)
    with \<open>h \<in> set ps\<close> show "game_key norm g \<in> game_key norm ` set ps" by (metis imageI)
  next
    assume "game_key norm g \<in> game_key norm ` set ps"
    then obtain h where "h \<in> set ps" "game_key norm h = game_key norm g" by auto
    then have "calendar h = calendar g" "snd (game_key norm h) = snd (game_key norm g)"
      by (simp_all add: game_key_def)
    with \<open>h \<in> set ps\<close> keys show "snd (game_key norm g) \<in> set (map (event_key norm) evs)" by auto
  qed
  show ?thesis
  proof (cases "snd (game_key norm g) \<in> set (map (event_key norm) evs)")
    case True
    then have w': "add_game norm w g = Inr (w\<lparr>skipped_count := skipped_count w + 1\<rparr>)"
      using add_game_safe [OF safe evs] by simp
    from True known have in_ps: "game_key norm g \<in> game_key norm ` set ps" by simp
    then have card: "card (game_key norm ` set (ps @ [g])) = card (game_key norm ` set ps)"
      by (simp add: insert_absorb)
    have "\<forall>c\<in>bs. \<exists>evs. store w c = Some evs \<and> distinct (map (event_key norm) evs)
          \<and> set (map (event_key norm) evs)
              = {snd (game_key norm h) | h. h \<in> set (ps @ [g]) \<and> calendar h = c}"
    proof
      fix c assume "c \<in> bs"
      with inv obtain es where es: "store w c = Some es" "distinct (map (event_key norm) es)"
        "set (map (event_key norm) es) = {snd (game_key norm h) | h. h \<in> set ps \<and> calendar h = c}"
        by (auto simp: writer_inv_def)
      have "{snd (game_key norm h) | h. h \<in> set (ps @ [g]) \<and> calendar h = c}
          = {snd (game_key norm h) | h. h \<in> set ps \<and> calendar h = c}"
      proof (cases "calendar g = c")
        case False
        then show ?thesis unfolding keys_snoc by simp
      next
        case same: True
        from True keys same
        have "snd (game_key norm g) \<in> {snd (game_key norm h) | h. h \<in> set ps \<and> calendar h = c}"
          by simp
        with same show ?thesis unfolding keys_snoc by (simp add: insert_absorb)
      qed
      with es show "\<exists>evs. store w c = Some evs \<and> distinct (map (event_key norm) evs)
          \<and> set (map (event_key norm) evs)
              = {snd (game_key norm h) | h. h \<in> set (ps @ [g]) \<and> calendar h = c}"
        by simp
    qed
    with added total card have
      "writer_inv norm bs (w\<lparr>skipped_count := skipped_count w + 1\<rparr>) (ps @ [g])"
      by (simp add: writer_inv_def)
    with w' show ?thesis by blast
  next
    case False
    then have w': "add_game norm w g =
        Inr (w\<lparr>store := (store w)(calendar g \<mapsto> evs @ [event_of_game g]),
               added_count := added_count w + 1\<rparr>)"
      using add_game_safe [OF safe evs] by simp
    from False known have new: "game_key norm g \<notin> game_key norm ` set ps" by simp
    then have card: "card (game_key norm ` set (ps @ [g])) = card (game_key norm ` set ps) + 1"
      by simp
    have "\<forall>c\<in>bs. \<exists>es. ((store w)(calendar g \<mapsto> evs @ [event_of_game g])) c = Some es
          \<and> distinct (map (event_key norm) es)
          \<and> set (map (event_key norm) es)
              = {snd (game_key norm h) | h. h \<in> set (ps @ [g]) \<and> calendar h = c}"
    proof
      fix c assume c: "c \<in> bs"
      show "\<exists>es. ((store w)(calendar g \<mapsto> evs @ [event_of_game g])) c = Some es
          \<and> distinct (map (event_key norm) es)
          \<and> set (map (event_key norm) es)
              = {snd (game_key norm h) | h. h \<in> set (ps @ [g]) \<and> calendar h = c}"
      proof (cases "calendar g = c")
        case False
        from c inv obtain es where es: "store w c = Some es" "distinct (map (event_key norm) es)"
          "set (map (event_key norm) es) = {snd (game_key norm h) | h. h \<in> set ps \<and> calendar h = c}"
          by (auto simp: writer_inv_def)
        have "{snd (game_key norm h) | h. h \<in> set (ps @ [g]) \<and> calendar h = c}
          = {snd (game_key norm h) | h. h \<in> set ps \<and> calendar h = c}"
          using False unfolding keys_snoc by simp
        with es False show ?thesis by simp
      next
        case True
        have d: "distinct (map (event_key norm) (evs @ [event_of_game g]))"
          using dist \<open>snd (game_key norm g) \<notin> set (map (event_key norm) evs)\<close>
          by (simp add: event_key_of_game)
        have "set (map (event_key norm) (evs @ [event_of_game g]))
            = insert (snd (game_key norm g)) {snd (game_key norm h) | h. h \<in> set ps \<and> calendar h = calendar g}"
          using keys by (simp add: event_key_of_game)
        also have "\<dots> = {snd (game_key norm h) | h. h \<in> set (ps @ [g]) \<and> calendar h = calendar g}"
          unfolding keys_snoc by simp
        finally show ?thesis using d True by auto
      qed
    qed
    with added total card have
      "writer_inv norm bs
         (w\<lparr>store := (store w)(calendar g \<mapsto> evs @ [event_of_game g]),
            added_count := added_count w + 1\<rparr>) (ps @ [g])"
      by (simp add: writer_inv_def)
    with w' show ?thesis by blast
  qed
qed

lemma write_games_inv:
  "writer_inv norm bs w ps \<Longrightarrow> \<forall>g\<in>set gs. script_safe g \<and> calendar g \<in> bs \<Longrightarrow>
     \<exists>w'. write_games norm w gs = Inr w' \<and> writer_inv norm bs w' (ps @ gs)"
proof (induction gs arbitrary: w ps)
  case Nil
  then show ?case by simp
next
  case (Cons g gs)
  from Cons.prems obtain w1 where a: "add_game norm w g = Inr w1"
    and i: "writer_inv norm bs w1 (ps @ [g])"
    using add_game_inv [of norm bs w ps g] by auto
  from Cons.IH [OF i] Cons.prems(2) obtain w' where
    "write_games norm w1 gs = Inr w'" "writer_inv norm bs w' ((ps @ [g]) @ gs)"
    by auto
  with a show ?case by simp
qed

lemma write_games_known:
  "\<forall>g\<in>set gs. script_safe g
      \<and> (\<exists>evs. store w (calendar g) = Some evs \<and> snd (game_key norm g) \<in> set (map (event_key norm) evs)) \<Longrightarrow>
     write_games norm w gs = Inr (w\<lparr>skipped_count := skipped_count w + length gs\<rparr>)"
proof (induction gs arbitrary: w)
  case Nil
  then show ?case by simp
next
  case (Cons g gs)
  from Cons.prems obtain evs where "script_safe g" "store w (calendar g) = Some evs"
    "snd (game_key norm g) \<in> set (map (event_key norm) evs)" by auto
  then have step: "add_game norm w g = Inr (w\<lparr>skipped_count := skipped_count w + 1\<rparr>)"
    using add_game_safe [of g w evs norm] by simp
  let ?w1 = "w\<lparr>skipped_count := skipped_count w + 1\<rparr>"
  have "write_games norm ?w1 gs = Inr (?w1\<lparr>skipped_count := skipped_count ?w1 + length gs\<rparr>)"
    by (rule Cons.IH) (use Cons.prems in simp)
  then show ?case by (simp add: step)
qed

lemma one_match:
  assumes "distinct (map f xs)" and "y \<in> set (map f xs)"
  shows "length (filter (\<lambda>x. f x = y) xs) = 1"
  using assms
proof (induction xs)
  case Nil
  then show ?case by simp
next
  case (Cons x xs)
  show ?case
  proof (cases "f x = y")
    case True
    from Cons.prems(1) have "f x \<notin> f ` set xs" by simp
    with True have "\<forall>z\<in>set xs. f z \<noteq> y" by (metis imageI)
    then have "filter (\<lambda>x. f x = y) xs = []" by (simp add: filter_empty_conv)
    with True show ?thesis by simp
  next
    case False
    with Cons show ?thesis by auto
  qed
qed

text \<open>
  What the writer does for games whose texts the scripts carry as they are, from a
  store in which the calendar of every game exists and holds no event: the first run
  inserts one event for each distinct key, so that every game then has exactly one
  matching event in its calendar, and the second run finds every game present,
  leaves the store as it is, adds nothing and counts every game as skipped.
\<close>

lemma safe_games_written_once:
  assumes "\<forall>g\<in>set gs. script_safe g \<and> cs (calendar g) = Some []"
  shows "\<exists>w1 w2. add_to_calendar norm cs gs = Inr w1
     \<and> add_to_calendar norm (store w1) gs = Inr w2
     \<and> added_count w1 = card (game_key norm ` set gs)
     \<and> (\<forall>g\<in>set gs. length (matching_events norm (store w1) g) = 1)
     \<and> store w2 = store w1 \<and> added_count w2 = 0 \<and> skipped_count w2 = length gs"
proof -
  define bs where "bs = calendar ` set gs"
  define w0 where "w0 = \<lparr>store = cs, added_count = 0, skipped_count = 0\<rparr>"
  have first: "add_to_calendar norm cs gs = write_games norm w0 gs"
    by (cases gs) (simp_all add: w0_def add_to_calendar_def)
  have "writer_inv norm bs w0 []"
    using assms by (auto simp: writer_inv_def w0_def bs_def)
  moreover have "\<forall>g\<in>set gs. script_safe g \<and> calendar g \<in> bs"
    using assms by (simp add: bs_def)
  ultimately obtain w1 where run1: "write_games norm w0 gs = Inr w1"
    and inv: "writer_inv norm bs w1 gs"
    using write_games_inv [of norm bs w0 "[]" gs] by auto
  from inv have a: "added_count w1 = card (game_key norm ` set gs)"
    by (simp add: writer_inv_def)
  have each: "\<forall>g\<in>set gs. \<exists>evs. store w1 (calendar g) = Some evs
      \<and> distinct (map (event_key norm) evs) \<and> snd (game_key norm g) \<in> set (map (event_key norm) evs)"
  proof
    fix g assume g: "g \<in> set gs"
    then have "calendar g \<in> bs" by (simp add: bs_def)
    with inv obtain evs where "store w1 (calendar g) = Some evs"
      "distinct (map (event_key norm) evs)"
      "set (map (event_key norm) evs)
         = {snd (game_key norm h) | h. h \<in> set gs \<and> calendar h = calendar g}"
      by (auto simp: writer_inv_def)
    with g show "\<exists>evs. store w1 (calendar g) = Some evs
      \<and> distinct (map (event_key norm) evs) \<and> snd (game_key norm g) \<in> set (map (event_key norm) evs)"
      by auto
  qed
  have m: "\<forall>g\<in>set gs. length (matching_events norm (store w1) g) = 1"
  proof
    fix g assume "g \<in> set gs"
    with each obtain evs where e: "store w1 (calendar g) = Some evs"
      "distinct (map (event_key norm) evs)"
      "snd (game_key norm g) \<in> set (map (event_key norm) evs)" by blast
    have "matching_events norm (store w1) g
        = filter (\<lambda>e. event_key norm e = snd (game_key norm g)) evs"
      unfolding matching_events_def e(1)
      by (auto simp: event_key_def game_key_def intro: filter_cong)
    with one_match [OF e(2,3)] show "length (matching_events norm (store w1) g) = 1" by simp
  qed
  define v0 where "v0 = \<lparr>store = store w1, added_count = 0, skipped_count = 0\<rparr>"
  have second: "add_to_calendar norm (store w1) gs = write_games norm v0 gs"
    by (cases gs) (simp_all add: v0_def add_to_calendar_def)
  have "write_games norm v0 gs = Inr (v0\<lparr>skipped_count := skipped_count v0 + length gs\<rparr>)"
  proof (rule write_games_known)
    show "\<forall>g\<in>set gs. script_safe g
      \<and> (\<exists>evs. store v0 (calendar g) = Some evs
             \<and> snd (game_key norm g) \<in> set (map (event_key norm) evs))"
      using each assms by (auto simp: v0_def)
  qed
  with second have "add_to_calendar norm (store w1) gs
      = Inr (v0\<lparr>skipped_count := skipped_count v0 + length gs\<rparr>)"
    by simp
  moreover have "store (v0\<lparr>skipped_count := skipped_count v0 + length gs\<rparr>) = store w1"
    "added_count (v0\<lparr>skipped_count := skipped_count v0 + length gs\<rparr>) = 0"
    "skipped_count (v0\<lparr>skipped_count := skipped_count v0 + length gs\<rparr>) = length gs"
    by (simp_all add: v0_def)
  ultimately show ?thesis using first run1 a m by metis
qed

text \<open>
  Claim C9: from a store without events, two runs of the writer on the same games
  leave exactly one stored event for each distinct triple of calendar, start and
  title, the second run taking every game for a duplicate. The two \<open>try\<close> blocks
  around \<open>subprocess.run\<close> catch \<open>CalledProcessError\<close> only. For a game whose title
  holds the character U+0000 the check script cannot be handed to a process, and
  \<open>subprocess.run\<close> raises \<open>ValueError\<close>: the exception leaves \<open>add_to_calendar\<close>
  in the first run, with the calendar there and empty, and nothing is stored.
\<close>

theorem writer_raises_on_nul:
  "empty_calendars (calendar nul_title_game) = Some []
   \<and> add_to_calendar norm empty_calendars [nul_title_game] = Inl ValueError"
  by (simp add: add_to_calendar_def add_game_def check_script_def nul_title_game_def
        sample_game_def empty_calendars_def buckets_def)

text \<open>
  A name with a double quote is carried no better: the add script then does not
  compile, the failure is caught, and the game is never stored.
\<close>

lemma quoted_notes_never_stored:
  "\<not> script_safe (sample_game\<lparr>notes_str := ''The 6'' @ [CHR 0x22] @ '' Subs @ Team B''\<rparr>)
   \<and> add_to_calendar norm empty_calendars
       [sample_game\<lparr>notes_str := ''The 6'' @ [CHR 0x22] @ '' Subs @ Team B''\<rparr>]
      = Inr (initial_writer empty_calendars)"
  by (simp add: script_safe_def add_to_calendar_def add_game_def try_add_def check_script_def
        add_script_def event_of_game_def sample_game_def empty_calendars_def buckets_def
        initial_writer_def ok_strftime nul_strftime)

end
